theory Spec2Isabelle
  imports Main "HOL-Library.AList" "HOL-Library.Sublist"
begin

section \<open>Data model of \<open>server.js\<close>\<close>

text \<open>
  The server keeps one process-wide object \<open>sessions\<close> (line 29) that maps a session
  identifier to \<open>{history, lastActive}\<close>. \<open>history\<close> is a JavaScript array that the request
  handler mutates in place and of which it passes a spread copy \<open>[...history]\<close> upstream, so
  arrays live in an explicit store and are named by reference. Turn objects are shared
  by a history and its copies but are not written once pushed, and a session object is
  reached through \<open>sessions\<close> only, so both are kept as values.
\<close>

datatype part = Text string | InlineData string string
  \<comment> \<open>\<open>{text: s}\<close> and \<open>{inlineData: {mimeType: m, data: d}}\<close>; any fragment without a
      \<open>text\<close> field behaves like the second form in this program\<close>

datatype role = User | Assistant
  \<comment> \<open>the strings \<open>'user'\<close> and \<open>'assistant'\<close>\<close>

record turn =
  role :: role
  parts :: "part list option"
  \<comment> \<open>\<open>None\<close> is JavaScript's \<open>undefined\<close>: line 95 stores \<open>aiResponse.parts\<close> unchecked\<close>

type_synonym addr = nat

record session =
  history :: addr
  lastActive :: int

record server =
  sessions :: "(string \<times> session) list"
  arrays :: "turn list list"
  prototype_lastActive :: "int option"
  \<comment> \<open>\<open>sessions\<close>: the own properties of the object (their order plays no role below);
      \<open>arrays\<close>: the array store, a reference is an index in it;
      \<open>prototype_lastActive\<close>: the property \<open>Object.prototype.lastActive\<close>, which does not
      exist at start and which line 78 can create (see \<open>touch\<close>)\<close>

definition SESSION_EXPIRY :: int where
  "SESSION_EXPIRY = 30 * 60 * 1000"

definition init :: server where
  "init = \<lparr>sessions = [], arrays = [], prototype_lastActive = None\<rparr>"

text \<open>Every session refers to an allocated array, and property names are unique.\<close>

definition wf_server :: "server \<Rightarrow> bool" where
  "wf_server st \<longleftrightarrow>
     distinct (map fst (sessions st)) \<and>
     list_all (\<lambda>(k, s). history s < length (arrays st)) (sessions st)"

subsection \<open>Array operations\<close>

definition push :: "addr \<Rightarrow> turn \<Rightarrow> server \<Rightarrow> server" where
  \<comment> \<open>\<open>a.push(t)\<close>\<close>
  "push a t st = st\<lparr>arrays := (arrays st)[a := arrays st ! a @ [t]]\<rparr>"

definition alloc :: "turn list \<Rightarrow> server \<Rightarrow> addr \<times> server" where
  \<comment> \<open>an array literal: a fresh array with the given elements\<close>
  "alloc ts st = (length (arrays st), st\<lparr>arrays := arrays st @ [ts]\<rparr>)"

definition spread :: "addr \<Rightarrow> server \<Rightarrow> addr \<times> server" where
  \<comment> \<open>\<open>[...a]\<close>: a fresh array holding the elements \<open>a\<close> has now\<close>
  "spread a st = alloc (arrays st ! a) st"

section \<open>The expiry sweep (lines 37--44)\<close>

definition expire :: "int \<Rightarrow> string \<Rightarrow> (string \<times> session) list \<Rightarrow> (string \<times> session) list" where
  \<comment> \<open>the body of the \<open>forEach\<close>; \<open>Object.keys\<close> lists own properties, each once, and only
      the visited key is deleted, so the lookup always finds a session\<close>
  "expire now sessionId ss =
     (case map_of ss sessionId of
        None \<Rightarrow> ss
      | Some s \<Rightarrow> if lastActive s < now - SESSION_EXPIRY then AList.delete sessionId ss else ss)"

definition sweepExpired :: "int \<Rightarrow> server \<Rightarrow> server" where
  \<comment> \<open>the \<open>setInterval\<close> callback, \<open>now\<close> being its \<open>Date.now()\<close>\<close>
  "sweepExpired now st =
     st\<lparr>sessions := fold (expire now) (map fst (sessions st)) (sessions st)\<rparr>"

section \<open>The upstream call (lines 47--59)\<close>

datatype content = Content (content_parts: "part list option")
  \<comment> \<open>a content block \<open>{parts: [...]}\<close>, possibly without \<open>parts\<close>\<close>

datatype candidate = Candidate (content: "content option")

datatype response_data = Data (candidates: "candidate list option")

datatype upstream_result = Rejected | Resolved "response_data option"
  \<comment> \<open>\<open>axios.post\<close> rejects (network error, timeout, status outside 2xx) or resolves with
      \<open>response.data\<close>; the body has the shape of the upstream contract, every field optional\<close>

type_synonym upstream = "turn list \<Rightarrow> upstream_result"
  \<comment> \<open>the external service: what it answers to a request body \<open>{contents}\<close>\<close>

datatype exn = Error string | TypeError string
  \<comment> \<open>a thrown \<open>Error\<close> with its message; a \<open>TypeError\<close> for reading the named property of
      \<open>undefined\<close>\<close>

definition first :: "'a list \<Rightarrow> 'a option" where
  \<comment> \<open>\<open>xs[0]\<close>\<close>
  "first xs = (case xs of [] \<Rightarrow> None | x # _ \<Rightarrow> Some x)"

definition first_content :: "response_data option \<Rightarrow> content option" where
  \<comment> \<open>\<open>response.data?.candidates?.[0]?.content\<close>\<close>
  "first_content d = Option.bind (Option.bind (Option.bind d candidates) first) content"

definition fallback :: content where
  "fallback = Content (Some [Text ''No response from AI.''])"

definition callGemini :: "upstream \<Rightarrow> addr \<Rightarrow> server \<Rightarrow> exn + content" where
  "callGemini post contents st =
     (case post (arrays st ! contents) of
        Rejected \<Rightarrow> Inl (Error ''Failed to get AI response'')
      | Resolved d \<Rightarrow> Inr (case first_content d of Some c \<Rightarrow> c | None \<Rightarrow> fallback))"

section \<open>The request handler (lines 62--105)\<close>

record uploaded =
  mimetype :: string
  base64 :: string
  \<comment> \<open>\<open>base64\<close> stands for \<open>image.buffer.toString('base64')\<close>\<close>

record request =
  prompt :: "string option"
  sessionId :: "string option"
  req_file :: "uploaded option"
  \<comment> \<open>\<open>req.body.prompt\<close>, \<open>req.body.sessionId\<close> and \<open>req.file\<close>; \<open>None\<close> is \<open>undefined\<close>\<close>

datatype http_response =
    Status200 "string option"
  | Status400 string
  | Status500 exn
  \<comment> \<open>\<open>{response: text}\<close> (the field is dropped when \<open>text\<close> is \<open>undefined\<close>),
      \<open>{error: message}\<close> with status 400, and status 500 carrying the caught error\<close>

definition truthy :: "string option \<Rightarrow> bool" where
  "truthy p = (case p of None \<Rightarrow> False | Some s \<Rightarrow> s \<noteq> [])"

definition Object_prototype_names :: "string list" where
  \<comment> \<open>\<open>sessions\<close> is created by \<open>{}\<close>, so it inherits the properties of \<open>Object.prototype\<close>:
      these built-in ones, each a function or (for \<open>__proto__\<close>) the prototype object\<close>
  "Object_prototype_names =
     [''constructor'', ''__proto__'', ''hasOwnProperty'', ''isPrototypeOf'',
      ''propertyIsEnumerable'', ''toLocaleString'', ''toString'', ''valueOf'',
      ''__defineGetter__'', ''__defineSetter__'', ''__lookupGetter__'', ''__lookupSetter__'']"

datatype property = Undefined | Own session | Inherited | Number int
  \<comment> \<open>what \<open>sessions[sessionId]\<close> can be: \<open>undefined\<close>, a session, a built-in object or
      function inherited from the prototype, or a number inherited from there\<close>

definition get_property :: "server \<Rightarrow> string \<Rightarrow> property" where
  \<comment> \<open>\<open>sessions[sessionId]\<close>: an own property, else one found on the prototype\<close>
  "get_property st k =
     (case map_of (sessions st) k of
        Some s \<Rightarrow> Own s
      | None \<Rightarrow>
          if k \<in> set Object_prototype_names then Inherited
          else if k = ''lastActive''
          then (case prototype_lastActive st of None \<Rightarrow> Undefined | Some n \<Rightarrow> Number n)
          else Undefined)"

definition falsy :: "property \<Rightarrow> bool" where
  \<comment> \<open>\<open>!v\<close>: objects and functions are truthy, a number is falsy when it is 0\<close>
  "falsy v = (case v of Undefined \<Rightarrow> True | Number n \<Rightarrow> n = 0 | _ \<Rightarrow> False)"

definition initialize :: "int \<Rightarrow> string \<Rightarrow> server \<Rightarrow> server" where
  \<comment> \<open>lines 72--77. The clock reading of line 75 is overwritten at line 78, so one
      reading serves both\<close>
  "initialize now k st =
     (if falsy (get_property st k)
      then let (a, st1) = alloc [] st
           in st1\<lparr>sessions := AList.update k \<lparr>history = a, lastActive = now\<rparr> (sessions st1)\<rparr>
      else st)"

definition touch :: "int \<Rightarrow> string \<Rightarrow> server \<Rightarrow> server" where
  \<comment> \<open>line 78. On an inherited object the assignment lands on that built-in: it is seen
      again only when the object is \<open>Object.prototype\<close> itself, reached as \<open>__proto__\<close>.
      On a number the assignment is dropped (the file is not in strict mode). After
      lines 72--77 the property is never \<open>undefined\<close>\<close>
  "touch now k st =
     (case get_property st k of
        Own s \<Rightarrow> st\<lparr>sessions := AList.update k (s\<lparr>lastActive := now\<rparr>) (sessions st)\<rparr>
      | Inherited \<Rightarrow> if k = ''__proto__'' then st\<lparr>prototype_lastActive := Some now\<rparr> else st
      | _ \<Rightarrow> st)"

definition history_of :: "string \<Rightarrow> server \<Rightarrow> addr option" where
  \<comment> \<open>line 79; neither the built-ins nor a number have a \<open>history\<close> property\<close>
  "history_of k st = (case get_property st k of Own s \<Rightarrow> Some (history s) | _ \<Rightarrow> None)"

definition getOrCreate :: "int \<Rightarrow> string \<Rightarrow> server \<Rightarrow> addr option \<times> server" where
  \<comment> \<open>lines 72--79\<close>
  "getOrCreate now k st =
     (let st1 = touch now k (initialize now k st) in (history_of k st1, st1))"

definition newContent :: "request \<Rightarrow> turn" where
  \<comment> \<open>lines 81--91\<close>
  "newContent req =
     \<lparr>role = User,
      parts = Some ((case prompt req of
                       None \<Rightarrow> []
                     | Some s \<Rightarrow> if s \<noteq> [] then [Text s] else [])
                  @ (case req_file req of
                       None \<Rightarrow> []
                     | Some i \<Rightarrow> [InlineData (mimetype i) (base64 i)]))\<rparr>"

definition session_key :: "request \<Rightarrow> string" where
  \<comment> \<open>\<open>sessionId = 'default'\<close> in the destructuring of line 64\<close>
  "session_key req = (case sessionId req of None \<Rightarrow> ''default'' | Some k \<Rightarrow> k)"

datatype pending = Done http_response | Awaiting addr addr
  \<comment> \<open>the handler has answered, or is suspended at the \<open>await\<close> of line 94 holding its
      local \<open>history\<close> (a reference) and the reference of the copy it sent\<close>

definition receive :: "int \<Rightarrow> request \<Rightarrow> server \<Rightarrow> pending \<times> server" where
  \<comment> \<open>lines 64--94, up to the suspension; \<open>now\<close> is the clock reading of this request\<close>
  "receive now req st =
     (if \<not> truthy (prompt req) \<and> req_file req = None
      then (Done (Status400 ''Either text or image is required''), st)
      else let (h, st1) = getOrCreate now (session_key req) st
           in case h of
                None \<Rightarrow> (Done (Status500 (TypeError ''push'')), st1)
              | Some hist \<Rightarrow>
                  let st2 = push hist (newContent req) st1;
                      (contents, st3) = spread hist st2
                  in (Awaiting hist contents, st3))"

definition text_of :: "part \<Rightarrow> string option" where
  \<comment> \<open>\<open>p.text\<close>\<close>
  "text_of p = (case p of Text s \<Rightarrow> Some s | InlineData _ _ \<Rightarrow> None)"

definition resume :: "addr \<Rightarrow> exn + content \<Rightarrow> server \<Rightarrow> http_response \<times> server" where
  \<comment> \<open>lines 94--104, from the moment the upstream call settles\<close>
  "resume hist r st =
     (case r of
        Inl e \<Rightarrow> (Status500 e, st)
      | Inr aiResponse \<Rightarrow>
          let st1 = push hist \<lparr>role = Assistant, parts = content_parts aiResponse\<rparr> st
          in case content_parts aiResponse of
               None \<Rightarrow> (Status500 (TypeError ''0''), st1)
             | Some [] \<Rightarrow> (Status500 (TypeError ''text''), st1)
             | Some (p # _) \<Rightarrow> (Status200 (text_of p), st1))"

definition handleTurn :: "upstream \<Rightarrow> int \<Rightarrow> request \<Rightarrow> server \<Rightarrow> http_response \<times> server" where
  \<comment> \<open>one request served without interleaving\<close>
  "handleTurn post now req st =
     (case receive now req st of
        (Done r, st1) \<Rightarrow> (r, st1)
      | (Awaiting hist contents, st1) \<Rightarrow> resume hist (callGemini post contents st1) st1)"

section \<open>Sequences of events\<close>

datatype event = Call upstream int request | Sweep int
  \<comment> \<open>a request served to completion, or a tick of the sweep timer\<close>

fun step :: "event \<Rightarrow> server \<Rightarrow> server" where
  "step (Call post now req) st = snd (handleTurn post now req st)"
| "step (Sweep now) st = sweepExpired now st"

section \<open>Observations used in the statements\<close>

definition stored_history :: "string \<Rightarrow> server \<Rightarrow> turn list" where
  \<comment> \<open>what \<open>sessions[k].history\<close> holds; empty when there is no such session\<close>
  "stored_history k st =
     (case map_of (sessions st) k of None \<Rightarrow> [] | Some s \<Rightarrow> arrays st ! history s)"

definition ok :: "http_response \<Rightarrow> bool" where
  "ok r = (case r of Status200 _ \<Rightarrow> True | _ \<Rightarrow> False)"

fun first_text :: "part list \<Rightarrow> string option" where
  \<comment> \<open>the specification's "first text fragment" of a content block\<close>
  "first_text [] = None"
| "first_text (Text s # ps) = Some s"
| "first_text (InlineData m d # ps) = first_text ps"

definition no_candidates :: "response_data option \<Rightarrow> bool" where
  \<comment> \<open>the body has no \<open>candidates\<close> field, or that list is empty\<close>
  "no_candidates d =
     (case d of None \<Rightarrow> True | Some (Data None) \<Rightarrow> True | Some (Data (Some cs)) \<Rightarrow> cs = [])"

definition fallback_turn :: turn where
  "fallback_turn = \<lparr>role = Assistant, parts = Some [Text ''No response from AI.'']\<rparr>"

definition grows :: "server \<Rightarrow> server \<Rightarrow> bool" where
  \<comment> \<open>no array is lost and every array keeps what it held, as a prefix\<close>
  "grows st st' \<longleftrightarrow>
     length (arrays st) \<le> length (arrays st') \<and>
     (\<forall>a < length (arrays st). prefix (arrays st ! a) (arrays st' ! a))"

definition unreferenced :: "addr \<Rightarrow> server \<Rightarrow> bool" where
  \<comment> \<open>an allocated array that is the history of no session\<close>
  "unreferenced p st \<longleftrightarrow>
     p < length (arrays st) \<and> list_all (\<lambda>(k, s). history s \<noteq> p) (sessions st)"

definition separate :: "server \<Rightarrow> bool" where
  \<comment> \<open>no two sessions share a history array\<close>
  "separate st \<longleftrightarrow> distinct (map (history \<circ> snd) (sessions st))"

definition addressed_to :: "string \<Rightarrow> request \<Rightarrow> bool" where
  \<comment> \<open>the specification's "call for that sessionId": the identifier given, or the
      constant \<open>default\<close> when none is given\<close>
  "addressed_to k req \<longleftrightarrow> sessionId req = Some k \<or> (sessionId req = None \<and> k = ''default'')"

fun calls_for :: "string \<Rightarrow> event list \<Rightarrow> request list" where
  "calls_for k [] = []"
| "calls_for k (Call post now req # es) =
     (if addressed_to k req then req # calls_for k es else calls_for k es)"
| "calls_for k (Sweep now # es) = calls_for k es"

fun undisturbed :: "string \<Rightarrow> event list \<Rightarrow> server \<Rightarrow> bool" where
  \<comment> \<open>every call for \<open>k\<close> is answered with status 200 and no sweep removes the session of \<open>k\<close>\<close>
  "undisturbed k [] st = True"
| "undisturbed k (Call post now req # es) st =
     ((addressed_to k req \<longrightarrow> ok (fst (handleTurn post now req st))) \<and>
      undisturbed k es (snd (handleTurn post now req st)))"
| "undisturbed k (Sweep now # es) st =
     ((case map_of (sessions st) k of
         None \<Rightarrow> True
       | Some s \<Rightarrow> \<not> lastActive s < now - SESSION_EXPIRY) \<and>
      undisturbed k es (sweepExpired now st))"

section \<open>Example inputs\<close>

definition says :: "string \<Rightarrow> upstream" where
  \<comment> \<open>an upstream that answers every request with one candidate holding one text fragment\<close>
  "says s = (\<lambda>_. Resolved (Some (Data (Some [Candidate (Some (Content (Some [Text s])))]))))"

definition ask :: "string \<Rightarrow> request" where
  \<comment> \<open>the JSON body \<open>{"prompt": s}\<close>\<close>
  "ask s = \<lparr>prompt = Some s, sessionId = None, req_file = None\<rparr>"

definition without_parts :: upstream where
  \<comment> \<open>a 2xx answer \<open>{candidates: [{content: {}}]}\<close>: a content block that has no \<open>parts\<close>\<close>
  "without_parts = (\<lambda>_. Resolved (Some (Data (Some [Candidate (Some (Content None))]))))"

definition picture_first :: upstream where
  \<comment> \<open>a content block whose first fragment is inline data and whose second is text\<close>
  "picture_first =
     (\<lambda>_. Resolved (Some (Data (Some [Candidate (Some (Content (Some
        [InlineData ''image/png'' ''iVBORw0KGgo='', Text ''A cat'']))) ]))))"

definition ask_as :: "string \<Rightarrow> string \<Rightarrow> request" where
  \<comment> \<open>the JSON body \<open>{"prompt": s, "sessionId": k}\<close>\<close>
  "ask_as k s = \<lparr>prompt = Some s, sessionId = Some k, req_file = None\<rparr>"

definition replies_to :: "turn list \<Rightarrow> string \<Rightarrow> upstream" where
  \<comment> \<open>an upstream that answers one request body with a text and rejects every other\<close>
  "replies_to expected s =
     (\<lambda>c. if c = expected
          then Resolved (Some (Data (Some [Candidate (Some (Content (Some [Text s])))])))
          else Rejected)"

section \<open>Evaluation\<close>

lemmas eval_defs = handleTurn_def receive_def resume_def callGemini_def getOrCreate_def
  initialize_def touch_def history_of_def get_property_def falsy_def Object_prototype_names_def
  alloc_def spread_def push_def newContent_def session_key_def truthy_def text_of_def
  first_content_def first_def fallback_def init_def says_def ask_def Let_def

lemmas run_defs = eval_defs sweepExpired_def expire_def SESSION_EXPIRY_def ok_def
  addressed_to_def ask_as_def

section \<open>Input validation\<close>

text \<open>
  C2. When neither a prompt text nor an image is supplied, the handler answers with
  status 400 and the whole server state, sessions and arrays, is what it was.
\<close>

theorem no_input_rejected:
  "prompt req = None \<Longrightarrow> req_file req = None \<Longrightarrow>
   handleTurn post now req st = (Status400 ''Either text or image is required'', st)"
  by (simp add: handleTurn_def receive_def truthy_def)

theorem no_input_rejected_witness:
  "handleTurn (\<lambda>_. Rejected) 7 \<lparr>prompt = None, sessionId = Some ''s'', req_file = None\<rparr> init
     = (Status400 ''Either text or image is required'', init)"
  using no_input_rejected [of "\<lparr>prompt = None, sessionId = Some ''s'', req_file = None\<rparr>" "\<lambda>_. Rejected" 7 init]
  by simp

text \<open>
  C9. A prompt that is the empty string, with no image, is answered like a missing
  prompt: status 400, and the server state is what it was.
\<close>

theorem empty_prompt_rejected:
  "prompt req = Some [] \<Longrightarrow> req_file req = None \<Longrightarrow>
   handleTurn post now req st = (Status400 ''Either text or image is required'', st)"
  by (simp add: handleTurn_def receive_def truthy_def)

theorem empty_prompt_rejected_witness:
  "handleTurn (\<lambda>_. Rejected) 7 \<lparr>prompt = Some [], sessionId = Some ''s'', req_file = None\<rparr> init
     = (Status400 ''Either text or image is required'', init)"
  using empty_prompt_rejected [of "\<lparr>prompt = Some [], sessionId = Some ''s'', req_file = None\<rparr>" "\<lambda>_. Rejected" 7 init]
  by simp

section \<open>The expiry sweep\<close>

lemma map_of_expire:
  "map_of (expire now k ss) k' =
     (case map_of ss k' of
        None \<Rightarrow> None
      | Some s \<Rightarrow> if k' = k \<and> lastActive s < now - SESSION_EXPIRY then None else Some s)"
  by (auto simp: expire_def AList.delete_conv' split: option.splits)

lemma map_of_fold_expire:
  "map_of (fold (expire now) ks ss) k' =
     (case map_of ss k' of
        None \<Rightarrow> None
      | Some s \<Rightarrow> if k' \<in> set ks \<and> lastActive s < now - SESSION_EXPIRY then None else Some s)"
proof (induction ks arbitrary: ss)
  case Nil
  show ?case by (simp split: option.splits)
next
  case (Cons k ks)
  show ?case
    by (simp add: Cons.IH map_of_expire split: option.splits)
qed

lemma set_expire: "set (expire now k ss) \<subseteq> set ss"
  by (auto simp: expire_def AList.delete_eq split: option.splits)

lemma set_fold_expire: "set (fold (expire now) ks ss) \<subseteq> set ss"
proof (induction ks arbitrary: ss)
  case Nil
  show ?case by simp
next
  case (Cons k ks)
  have "set (fold (expire now) ks (expire now k ss)) \<subseteq> set (expire now k ss)"
    by (rule Cons.IH)
  with set_expire [of now k ss] show ?case by auto
qed

lemma distinct_expire: "distinct (map fst ss) \<Longrightarrow> distinct (map fst (expire now k ss))"
  by (simp add: expire_def AList.distinct_delete split: option.splits)

lemma distinct_fold_expire:
  "distinct (map fst ss) \<Longrightarrow> distinct (map fst (fold (expire now) ks ss))"
  by (induction ks arbitrary: ss) (simp_all add: distinct_expire)

lemma wf_sweepExpired: "wf_server st \<Longrightarrow> wf_server (sweepExpired now st)"
  using set_fold_expire [of now "map fst (sessions st)" "sessions st"]
  by (auto simp: wf_server_def sweepExpired_def distinct_fold_expire list_all_iff)

lemma arrays_sweepExpired: "arrays (sweepExpired now st) = arrays st"
  by (simp add: sweepExpired_def)

text \<open>
  C1, as the code has it. The sweep removes exactly the sessions whose idle time
  \<open>now - lastActive\<close> is strictly greater than the TTL. Every other session keeps its
  \<open>lastActive\<close> and its \<open>history\<close> reference, and no array changes, so its history contents
  are what they were.
\<close>

theorem sweep_removes_idle_longer_than_ttl:
  "map_of (sessions (sweepExpired now st)) k =
     (case map_of (sessions st) k of
        None \<Rightarrow> None
      | Some s \<Rightarrow> if SESSION_EXPIRY < now - lastActive s then None else Some s)
   \<and> arrays (sweepExpired now st) = arrays st"
proof -
  have "k \<in> set (map fst (sessions st))" if "map_of (sessions st) k = Some s" for s
    using map_of_SomeD [OF that] by force
  then show ?thesis
    by (auto simp: sweepExpired_def map_of_fold_expire split: option.splits)
qed

theorem sweep_removes_idle_longer_than_ttl_witness:
  "map_of (sessions (sweepExpired 1800001
      \<lparr>sessions = [(''a'', \<lparr>history = 0, lastActive = 0\<rparr>), (''b'', \<lparr>history = 1, lastActive = 1\<rparr>)],
       arrays = [[], []],
       prototype_lastActive = None\<rparr>)) ''a'' = None
   \<and> map_of (sessions (sweepExpired 1800001
      \<lparr>sessions = [(''a'', \<lparr>history = 0, lastActive = 0\<rparr>), (''b'', \<lparr>history = 1, lastActive = 1\<rparr>)],
       arrays = [[], []],
       prototype_lastActive = None\<rparr>)) ''b'' = Some \<lparr>history = 1, lastActive = 1\<rparr>"
  using
    sweep_removes_idle_longer_than_ttl [of 1800001
      "\<lparr>sessions = [(''a'', \<lparr>history = 0, lastActive = 0\<rparr>), (''b'', \<lparr>history = 1, lastActive = 1\<rparr>)],
        arrays = [[], []],
       prototype_lastActive = None\<rparr>" "''a''"]
    sweep_removes_idle_longer_than_ttl [of 1800001
      "\<lparr>sessions = [(''a'', \<lparr>history = 0, lastActive = 0\<rparr>), (''b'', \<lparr>history = 1, lastActive = 1\<rparr>)],
        arrays = [[], []],
       prototype_lastActive = None\<rparr>" "''b''"]
  by (simp add: SESSION_EXPIRY_def)

text \<open>
  C1, as the specification states it, fails: a session idle for exactly the TTL
  (\<open>lastActive = 0\<close>, swept at \<open>now = 1800000\<close>) stays in the store.
\<close>

theorem sweep_at_ttl_counterexample:
  "1800000 - lastActive \<lparr>history = 0, lastActive = 0\<rparr> \<ge> SESSION_EXPIRY \<and>
   map_of (sessions (sweepExpired 1800000
      \<lparr>sessions = [(''a'', \<lparr>history = 0, lastActive = 0\<rparr>)], arrays = [[]],
       prototype_lastActive = None\<rparr>)) ''a''
     = Some \<lparr>history = 0, lastActive = 0\<rparr>"
  by (simp add: sweepExpired_def expire_def SESSION_EXPIRY_def)

section \<open>What one request does to the store\<close>

text \<open>
  Lines 72--79: where \<open>sessions[sessionId]\<close> is falsy, a new session with an empty
  history; where it is a session, that session with \<open>lastActive\<close> refreshed; where it is
  an inherited property that is truthy, no session and no history.
\<close>

lemma falsy_not_own: "falsy (get_property st k) \<Longrightarrow> map_of (sessions st) k = None"
  by (cases "map_of (sessions st) k") (simp_all add: falsy_def get_property_def)

lemma getOrCreate_fresh:
  assumes "falsy (get_property st k)"
  shows "getOrCreate now k st =
           (Some (length (arrays st)),
            st\<lparr>sessions := AList.update k \<lparr>history = length (arrays st), lastActive = now\<rparr> (sessions st),
               arrays := arrays st @ [[]]\<rparr>)"
proof -
  let ?st1 = "st\<lparr>arrays := arrays st @ [[]],
      sessions := AList.update k \<lparr>history = length (arrays st), lastActive = now\<rparr> (sessions st)\<rparr>"
  from assms have i: "initialize now k st = ?st1"
    by (simp add: initialize_def alloc_def)
  have g: "get_property ?st1 k = Own \<lparr>history = length (arrays st), lastActive = now\<rparr>"
    by (simp add: get_property_def AList.update_conv')
  show ?thesis
    by (simp add: getOrCreate_def i touch_def history_of_def g Let_def)
qed

lemma getOrCreate_existing:
  assumes "map_of (sessions st) k = Some s"
  shows "getOrCreate now k st =
           (Some (history s), st\<lparr>sessions := AList.update k (s\<lparr>lastActive := now\<rparr>) (sessions st)\<rparr>)"
  using assms
  by (simp add: getOrCreate_def initialize_def touch_def history_of_def get_property_def
      falsy_def AList.update_conv')

lemma history_of_not_own: "map_of (sessions st) k = None \<Longrightarrow> history_of k st = None"
  by (simp add: history_of_def get_property_def split: option.splits)

lemma touch_not_own:
  assumes "map_of (sessions st) k = None"
  shows "sessions (touch now k st) = sessions st" and "arrays (touch now k st) = arrays st"
proof -
  from assms have "get_property st k \<noteq> Own s" for s
    by (simp add: get_property_def split: option.splits)
  then show "sessions (touch now k st) = sessions st" and "arrays (touch now k st) = arrays st"
    by (cases "get_property st k"; simp add: touch_def)+
qed

lemma getOrCreate_inherited:
  assumes "map_of (sessions st) k = None" and "\<not> falsy (get_property st k)"
  shows "fst (getOrCreate now k st) = None"
    and "sessions (snd (getOrCreate now k st)) = sessions st"
    and "arrays (snd (getOrCreate now k st)) = arrays st"
proof -
  from assms have i: "initialize now k st = st" by (simp add: initialize_def)
  note t = touch_not_own [OF assms(1), of now]
  from t show "sessions (snd (getOrCreate now k st)) = sessions st"
    and "arrays (snd (getOrCreate now k st)) = arrays st"
    by (simp_all add: getOrCreate_def i Let_def)
  from t(1) assms(1) have "map_of (sessions (touch now k st)) k = None" by simp
  then show "fst (getOrCreate now k st) = None"
    by (simp add: getOrCreate_def i Let_def history_of_not_own)
qed

lemma receive_Awaiting_cases:
  assumes "receive now req st = (Awaiting h p, st1)"
  obtains (existing) s where
      "map_of (sessions st) (session_key req) = Some s"
      "h = history s" "p = length (arrays st)"
      "st1 = st\<lparr>sessions := AList.update (session_key req) (s\<lparr>lastActive := now\<rparr>) (sessions st),
             arrays := (arrays st)[history s := arrays st ! history s @ [newContent req]]
                      @ [(arrays st)[history s := arrays st ! history s @ [newContent req]] ! history s]\<rparr>"
    | (created)
      "map_of (sessions st) (session_key req) = None"
      "falsy (get_property st (session_key req))"
      "h = length (arrays st)" "p = Suc (length (arrays st))"
      "st1 = st\<lparr>sessions := AList.update (session_key req) \<lparr>history = length (arrays st), lastActive = now\<rparr> (sessions st),
             arrays := arrays st @ [[newContent req], [newContent req]]\<rparr>"
proof (cases "map_of (sessions st) (session_key req)")
  case None
  show ?thesis
  proof (cases "falsy (get_property st (session_key req))")
    case False
    obtain a st' where g: "getOrCreate now (session_key req) st = (a, st')"
      by (cases "getOrCreate now (session_key req) st")
    with getOrCreate_inherited(1) [OF None False, of now] have "a = None" by simp
    with g assms show ?thesis
      by (simp add: receive_def split: if_splits)
  next
    case True
    with assms have "h = length (arrays st) \<and> p = Suc (length (arrays st)) \<and>
      st1 = st\<lparr>sessions := AList.update (session_key req) \<lparr>history = length (arrays st), lastActive = now\<rparr> (sessions st),
             arrays := arrays st @ [[newContent req], [newContent req]]\<rparr>"
      by (auto simp add: receive_def getOrCreate_fresh spread_def alloc_def push_def Let_def
          split: if_splits)
    with None True show ?thesis by (intro created) simp_all
  qed
next
  case (Some s)
  with assms have "h = history s \<and> p = length (arrays st) \<and>
      st1 = st\<lparr>sessions := AList.update (session_key req) (s\<lparr>lastActive := now\<rparr>) (sessions st),
             arrays := (arrays st)[history s := arrays st ! history s @ [newContent req]]
                      @ [(arrays st)[history s := arrays st ! history s @ [newContent req]] ! history s]\<rparr>"
    by (auto simp add: receive_def getOrCreate_existing spread_def alloc_def push_def Let_def
          split: if_splits)
  with Some show ?thesis by (intro existing) simp_all
qed

text \<open>A handler that answers before the upstream call leaves sessions and arrays alone.\<close>

lemma receive_Done:
  assumes "receive now req st = (Done r, st1)"
  shows "sessions st1 = sessions st" and "arrays st1 = arrays st"
proof -
  have "sessions st1 = sessions st \<and> arrays st1 = arrays st"
  proof (cases "\<not> truthy (prompt req) \<and> req_file req = None")
    case True
    with assms show ?thesis by (simp add: receive_def)
  next
    case valid: False
    show ?thesis
    proof (cases "map_of (sessions st) (session_key req)")
      case (Some s)
      with assms valid show ?thesis
        by (simp add: receive_def getOrCreate_existing spread_def alloc_def Let_def)
    next
      case None
      show ?thesis
      proof (cases "falsy (get_property st (session_key req))")
        case True
        with assms valid show ?thesis
          by (simp add: receive_def getOrCreate_fresh spread_def alloc_def Let_def)
      next
        case False
        obtain a st' where g: "getOrCreate now (session_key req) st = (a, st')"
          by (cases "getOrCreate now (session_key req) st")
        with getOrCreate_inherited [OF None False, of now]
        have "a = None" "sessions st' = sessions st" "arrays st' = arrays st" by simp_all
        with g assms valid show ?thesis by (simp add: receive_def)
      qed
    qed
  qed
  then show "sessions st1 = sessions st" and "arrays st1 = arrays st" by simp_all
qed

lemma receive_valid:
  "receive now req st = (Awaiting h p, st1) \<Longrightarrow> truthy (prompt req) \<or> req_file req \<noteq> None"
  by (auto simp: receive_def split: if_splits)

lemma set_update_subset: "set (AList.update k v al) \<subseteq> insert (k, v) (set al)"
  by (induction al) auto

lemma wf_update:
  assumes "wf_server st" and "a < n" and "length (arrays st) \<le> n"
  shows "distinct (map fst (AList.update k \<lparr>history = a, lastActive = t\<rparr> (sessions st)))
       \<and> list_all (\<lambda>(k, s). history s < n)
            (AList.update k \<lparr>history = a, lastActive = t\<rparr> (sessions st))"
proof -
  have "history s < n" if "(k', s) \<in> set (AList.update k \<lparr>history = a, lastActive = t\<rparr> (sessions st))"
    for k' s
  proof -
    from that set_update_subset
    have "(k', s) = (k, \<lparr>history = a, lastActive = t\<rparr>) \<or> (k', s) \<in> set (sessions st)"
      by fastforce
    with assms show ?thesis
      by (auto simp: wf_server_def list_all_iff)
  qed
  with assms(1) show ?thesis
    by (auto simp: wf_server_def AList.distinct_update list_all_iff)
qed

lemma wf_history:
  "wf_server st \<Longrightarrow> map_of (sessions st) k = Some s \<Longrightarrow> history s < length (arrays st)"
  by (auto simp: wf_server_def list_all_iff dest!: map_of_SomeD)

text \<open>What a suspended handler has done to the store.\<close>

lemma receive_Awaiting:
  assumes "wf_server st" and "receive now req st = (Awaiting h p, st1)"
  shows "wf_server st1"
    and "map_of (sessions st1) (session_key req) = Some \<lparr>history = h, lastActive = now\<rparr>"
    and "arrays st1 ! h = stored_history (session_key req) st @ [newContent req]"
    and "arrays st1 ! p = arrays st1 ! h"
    and "h < p" and "length (arrays st1) = Suc p"
    and "length (arrays st) \<le> p"
    and "\<And>k. k \<noteq> session_key req \<Longrightarrow> map_of (sessions st1) k = map_of (sessions st) k"
proof -
  from assms(2) show "wf_server st1"
  proof (cases rule: receive_Awaiting_cases)
    case (existing s)
    with assms(1) have "history s < length (arrays st)" by (simp add: wf_history)
    with wf_update [OF assms(1), where a = "history s" and n = "Suc (length (arrays st))"
        and k = "session_key req" and t = now] existing
    show ?thesis by (cases s) (simp add: wf_server_def)
  next
    case created
    with wf_update [OF assms(1), where a = "length (arrays st)"
        and n = "Suc (Suc (length (arrays st)))" and k = "session_key req" and t = now]
    show ?thesis by (simp add: wf_server_def)
  qed
  from assms(2) show "map_of (sessions st1) (session_key req) = Some \<lparr>history = h, lastActive = now\<rparr>"
  proof (cases rule: receive_Awaiting_cases)
    case (existing s)
    then show ?thesis by (cases s) (simp add: AList.update_conv')
  next
    case created
    then show ?thesis by (simp add: AList.update_conv')
  qed
  from assms(2) show "arrays st1 ! h = stored_history (session_key req) st @ [newContent req]"
  proof (cases rule: receive_Awaiting_cases)
    case (existing s)
    with assms(1) have "history s < length (arrays st)" by (simp add: wf_history)
    with existing show ?thesis by (simp add: stored_history_def nth_append)
  next
    case created
    then show ?thesis by (simp add: stored_history_def nth_append)
  qed
  from assms(2) show "arrays st1 ! p = arrays st1 ! h"
  proof (cases rule: receive_Awaiting_cases)
    case (existing s)
    with assms(1) have "history s < length (arrays st)" by (simp add: wf_history)
    with existing show ?thesis by (simp add: nth_append)
  next
    case created
    then show ?thesis by (simp add: nth_append)
  qed
  from assms(2) show "h < p"
  proof (cases rule: receive_Awaiting_cases)
    case (existing s)
    with assms(1) show ?thesis by (simp add: wf_history)
  next
    case created
    then show ?thesis by simp
  qed
  from assms(2) show "length (arrays st1) = Suc p"
    by (cases rule: receive_Awaiting_cases) simp_all
  from assms(2) show "length (arrays st) \<le> p"
    by (cases rule: receive_Awaiting_cases) simp_all
  fix k
  assume "k \<noteq> session_key req"
  with assms(2) show "map_of (sessions st1) k = map_of (sessions st) k"
    by (cases rule: receive_Awaiting_cases) (simp_all add: AList.update_conv')
qed


lemma sessions_push: "sessions (push a t st) = sessions st"
  by (simp add: push_def)

lemma length_arrays_push: "length (arrays (push a t st)) = length (arrays st)"
  by (simp add: push_def)

lemma nth_arrays_push:
  "a < length (arrays st) \<Longrightarrow>
   arrays (push a t st) ! b = (if b = a then arrays st ! a @ [t] else arrays st ! b)"
  by (simp add: push_def)

lemma wf_push: "wf_server st \<Longrightarrow> wf_server (push a t st)"
  by (simp add: wf_server_def push_def)

lemma handleTurn_Awaiting:
  "receive now req st = (Awaiting h p, st1) \<Longrightarrow>
   handleTurn post now req st = resume h (callGemini post p st1) st1"
  by (simp add: handleTurn_def)

lemma resume_ok:
  assumes "resume h r st1 = (Status200 t, st2)"
  obtains f ps where "r = Inr (Content (Some (f # ps)))" "t = text_of f"
    "st2 = push h \<lparr>role = Assistant, parts = Some (f # ps)\<rparr> st1"
proof (cases r)
  case (Inl e)
  with assms show ?thesis by (simp add: resume_def)
next
  case (Inr c)
  obtain ps where c: "c = Content ps" by (cases c)
  show ?thesis
  proof (cases ps)
    case None
    with Inr c assms show ?thesis by (simp add: resume_def)
  next
    case (Some l)
    show ?thesis
    proof (cases l)
      case Nil
      with Some Inr c assms show ?thesis by (simp add: resume_def)
    next
      case (Cons f fs)
      with Some Inr c assms have "t = text_of f"
        "st2 = push h \<lparr>role = Assistant, parts = Some (f # fs)\<rparr> st1"
        by (auto simp: resume_def)
      with Cons Some Inr c that show ?thesis by simp
    qed
  qed
qed

lemma handleTurn_ok:
  assumes "handleTurn post now req st = (Status200 t, st2)"
  obtains h p st1 f ps where
    "receive now req st = (Awaiting h p, st1)"
    "callGemini post p st1 = Inr (Content (Some (f # ps)))"
    "t = text_of f"
    "st2 = push h \<lparr>role = Assistant, parts = Some (f # ps)\<rparr> st1"
proof -
  obtain w st1 where rc: "receive now req st = (w, st1)" by (cases "receive now req st")
  show ?thesis
  proof (cases w)
    case (Done r)
    with rc assms have "r = Status200 t" "st1 = st2" by (simp_all add: handleTurn_def)
    with rc Done show ?thesis
      by (auto simp: receive_def Let_def split: if_splits prod.splits option.splits)
  next
    case (Awaiting h p)
    with rc assms have "resume h (callGemini post p st1) st1 = (Status200 t, st2)"
      by (simp add: handleTurn_def)
    then show ?thesis
      using rc Awaiting that by (elim resume_ok) blast
  qed
qed

lemma handleTurn_ok_history:
  assumes "wf_server st" and "handleTurn post now req st = (r, st2)" and "ok r"
  shows "wf_server st2"
    and "map_of (sessions st2) (session_key req) \<noteq> None"
    and "\<exists>a. role a = Assistant \<and>
           stored_history (session_key req) st2 =
             stored_history (session_key req) st @ [newContent req, a]"
proof -
  from assms(3) obtain t where r: "r = Status200 t" by (cases r) (simp_all add: ok_def)
  from assms(2) [unfolded r] obtain h p st1 f ps where
    rc: "receive now req st = (Awaiting h p, st1)" and
    st2: "st2 = push h \<lparr>role = Assistant, parts = Some (f # ps)\<rparr> st1"
    by (rule handleTurn_ok)
  note facts = receive_Awaiting [OF assms(1) rc]
  from facts(1) st2 show "wf_server st2" by (simp add: wf_push)
  from facts(2) st2 show "map_of (sessions st2) (session_key req) \<noteq> None"
    by (simp add: sessions_push)
  from facts(5,6) have "h < length (arrays st1)" by simp
  with facts(2,3) st2
  have "stored_history (session_key req) st2 =
          stored_history (session_key req) st @ [newContent req, \<lparr>role = Assistant, parts = Some (f # ps)\<rparr>]"
    by (simp add: stored_history_def sessions_push nth_arrays_push)
  then show "\<exists>a. role a = Assistant \<and>
           stored_history (session_key req) st2 =
             stored_history (session_key req) st @ [newContent req, a]"
    by (intro exI [of _ "\<lparr>role = Assistant, parts = Some (f # ps)\<rparr>"]) simp
qed

section \<open>Conversations\<close>

lemma length_exchanges:
  "length (concat (map2 (\<lambda>c a. [g c, a]) cs bs)) = 2 * min (length cs) (length bs)"
proof (induction cs arbitrary: bs)
  case Nil
  show ?case by simp
next
  case (Cons c cs)
  then show ?case by (cases bs) simp_all
qed

text \<open>
  C4 fails on a malformed answer. When the upstream answers 2xx with a content block
  that has no \<open>parts\<close>, the handler answers with status 500, yet line 95 has already
  pushed an assistant turn (whose \<open>parts\<close> is \<open>undefined\<close>) behind the user turn.
\<close>

theorem missing_parts_appends_assistant_turn:
  "handleTurn without_parts 1 (ask ''Hello'') init =
     (Status500 (TypeError ''0''),
      \<lparr>sessions = [(''default'', \<lparr>history = 0, lastActive = 1\<rparr>)],
       arrays = [[\<lparr>role = User, parts = Some [Text ''Hello'']\<rparr>,
                  \<lparr>role = Assistant, parts = None\<rparr>],
                 [\<lparr>role = User, parts = Some [Text ''Hello'']\<rparr>]],
       prototype_lastActive = None\<rparr>)"
  by (simp add: eval_defs without_parts_def)

text \<open>
  C5 fails for a session identifier that names a property of \<open>Object.prototype\<close>.
  With an empty store and the identifier \<open>constructor\<close>, lines 72--79 create no
  session and yield no history; the request then fails at line 93 with status 500.
\<close>

theorem inherited_name_creates_no_session:
  "getOrCreate 5 ''constructor'' init = (None, init) \<and>
   handleTurn (says ''Hi'') 5 \<lparr>prompt = Some ''Hello'', sessionId = Some ''constructor'', req_file = None\<rparr> init
     = (Status500 (TypeError ''push''), init)"
  by (simp add: eval_defs)

text \<open>
  When \<open>axios.post\<close> rejects, the handler answers with status 500 and the message of
  \<open>callGemini\<close>; the user turn stays in the history and nothing follows it.
\<close>

lemma upstream_rejected:
  assumes "wf_server st" and "receive now req st = (Awaiting h p, st1)"
    and "post (arrays st1 ! p) = Rejected"
  shows "handleTurn post now req st = (Status500 (Error ''Failed to get AI response''), st1)"
    and "stored_history (session_key req) st1 = stored_history (session_key req) st @ [newContent req]"
proof -
  from assms(2,3) show "handleTurn post now req st = (Status500 (Error ''Failed to get AI response''), st1)"
    by (simp add: handleTurn_def callGemini_def resume_def)
  from receive_Awaiting(2,3) [OF assms(1,2)]
  show "stored_history (session_key req) st1 = stored_history (session_key req) st @ [newContent req]"
    by (simp add: stored_history_def)
qed

lemma no_candidates_first_content: "no_candidates d \<Longrightarrow> first_content d = None"
proof (cases d)
  case None
  then show ?thesis by (simp add: first_content_def)
next
  case (Some b)
  assume n: "no_candidates d"
  obtain cs where b: "b = Data cs" by (cases b)
  show ?thesis
  proof (cases cs)
    case None
    with Some b show ?thesis by (simp add: first_content_def)
  next
    case (Some l)
    with n \<open>d = Some b\<close> b show ?thesis
      by (simp add: first_content_def first_def no_candidates_def)
  qed
qed

text \<open>
  C7. When the handler has reached the upstream call and the answer is a 2xx body
  without candidates, the request succeeds with the text \<open>No response from AI.\<close>,
  which it has pushed onto the history as the assistant turn.
\<close>

theorem no_candidates_fallback:
  assumes "receive now req st = (Awaiting h p, st1)"
    and "post (arrays st1 ! p) = Resolved (Some d)"
    and "no_candidates (Some d)"
  shows "handleTurn post now req st =
           (Status200 (Some ''No response from AI.''), push h fallback_turn st1)"
  using assms
  by (simp add: handleTurn_def callGemini_def resume_def no_candidates_first_content
      fallback_def fallback_turn_def text_of_def)

theorem no_candidates_fallback_witness:
  "receive 1 (ask ''Hello'') init =
     (Awaiting 0 1,
      \<lparr>sessions = [(''default'', \<lparr>history = 0, lastActive = 1\<rparr>)],
       arrays = [[\<lparr>role = User, parts = Some [Text ''Hello'']\<rparr>],
                 [\<lparr>role = User, parts = Some [Text ''Hello'']\<rparr>]],
       prototype_lastActive = None\<rparr>) \<and>
   no_candidates (Some (Data (Some []))) \<and>
   fst (handleTurn (\<lambda>_. Resolved (Some (Data (Some [])))) 1 (ask ''Hello'') init)
     = Status200 (Some ''No response from AI.'')"
proof -
  have r: "receive 1 (ask ''Hello'') init =
     (Awaiting 0 1,
      \<lparr>sessions = [(''default'', \<lparr>history = 0, lastActive = 1\<rparr>)],
       arrays = [[\<lparr>role = User, parts = Some [Text ''Hello'']\<rparr>],
                 [\<lparr>role = User, parts = Some [Text ''Hello'']\<rparr>]],
       prototype_lastActive = None\<rparr>)"
    by (simp add: eval_defs)
  have n: "no_candidates (Some (Data (Some [])))" by (simp add: no_candidates_def)
  from no_candidates_fallback [OF r _ n, of "\<lambda>_. Resolved (Some (Data (Some [])))"] r n
  show ?thesis by simp
qed

section \<open>Arrays only grow\<close>

lemma grows_refl: "grows st st"
  by (simp add: grows_def)

lemma grows_trans: "grows st st1 \<Longrightarrow> grows st1 st2 \<Longrightarrow> grows st st2"
  unfolding grows_def by (meson less_le_trans order_trans prefix_order.order_trans)

lemma prefix_nth_append_update:
  "b < length xs \<Longrightarrow> prefix (xs ! b) (xs[a := xs ! a @ [t]] ! b)"
  by (cases "a = b") simp_all

lemma grows_push: "grows st (push a t st)"
  by (simp add: grows_def push_def prefix_nth_append_update)

lemma grows_receive: "wf_server st \<Longrightarrow> receive now req st = (w, st1) \<Longrightarrow> grows st st1"
proof (cases w)
  case (Done r)
  assume "receive now req st = (w, st1)"
  with Done have "arrays st1 = arrays st" by (auto dest: receive_Done)
  then show ?thesis by (simp add: grows_def)
next
  case (Awaiting h p)
  assume w: "wf_server st" and "receive now req st = (w, st1)"
  with Awaiting have "receive now req st = (Awaiting h p, st1)" by simp
  then show ?thesis
  proof (cases rule: receive_Awaiting_cases)
    case (existing s)
    then show ?thesis by (simp add: grows_def nth_append prefix_nth_append_update)
  next
    case created
    then show ?thesis by (simp add: grows_def nth_append)
  qed
qed

lemma resume_state:
  "resume h r st1 = (x, st2) \<Longrightarrow> st2 = st1 \<or> (\<exists>t. role t = Assistant \<and> st2 = push h t st1)"
proof (cases r)
  case (Inl e)
  assume "resume h r st1 = (x, st2)"
  with Inl show ?thesis by (simp add: resume_def)
next
  case (Inr c)
  assume "resume h r st1 = (x, st2)"
  with Inr have "st2 = push h \<lparr>role = Assistant, parts = content_parts c\<rparr> st1"
    by (auto simp: resume_def Let_def split: option.splits list.splits)
  then have "role \<lparr>role = Assistant, parts = content_parts c\<rparr> = Assistant \<and>
             st2 = push h \<lparr>role = Assistant, parts = content_parts c\<rparr> st1" by simp
  then show ?thesis by blast
qed

lemma wf_handleTurn:
  assumes "wf_server st" and "handleTurn post now req st = (x, st2)"
  shows "wf_server st2" and "grows st st2"
proof -
  obtain w st1 where rc: "receive now req st = (w, st1)" by (cases "receive now req st")
  have "wf_server st2 \<and> grows st st2"
  proof (cases w)
    case (Done r)
    with rc assms(2) have "st2 = st1" by (simp add: handleTurn_def)
    moreover from rc Done have "sessions st1 = sessions st" "arrays st1 = arrays st"
      by (auto dest: receive_Done)
    ultimately show ?thesis using assms(1) by (simp add: grows_def wf_server_def)
  next
    case (Awaiting h p)
    with rc assms(2) have rs: "resume h (callGemini post p st1) st1 = (x, st2)"
      by (simp add: handleTurn_def)
    from rc Awaiting assms(1) have "wf_server st1" by (simp add: receive_Awaiting(1))
    moreover from rc assms(1) have "grows st st1" by (rule grows_receive [rotated])
    ultimately show ?thesis
      using resume_state [OF rs] by (auto simp: wf_push intro: grows_trans grows_push)
  qed
  then show "wf_server st2" and "grows st st2" by simp_all
qed

lemma wf_step: "wf_server st \<Longrightarrow> wf_server (step e st) \<and> grows st (step e st)"
proof (cases e)
  case (Call post now req)
  assume "wf_server st"
  with Call wf_handleTurn [of st post now req "fst (handleTurn post now req st)" "snd (handleTurn post now req st)"]
  show ?thesis by simp
next
  case (Sweep now)
  assume "wf_server st"
  with Sweep show ?thesis by (simp add: wf_sweepExpired grows_def arrays_sweepExpired)
qed

lemma wf_fold_step: "wf_server st \<Longrightarrow> wf_server (fold step es st) \<and> grows st (fold step es st)"
proof (induction es arbitrary: st)
  case Nil
  then show ?case by (simp add: grows_refl)
next
  case (Cons e es)
  from wf_step [OF Cons.prems, of e] have 1: "wf_server (step e st)" "grows st (step e st)"
    by simp_all
  from Cons.IH [OF 1(1)] 1(2) show ?case by (auto intro: grows_trans)
qed

text \<open>Every state the server reaches from its start is well formed.\<close>

lemma wf_reachable: "wf_server (fold step es init)"
proof -
  have "wf_server init" by (simp add: init_def wf_server_def)
  from wf_fold_step [OF this, of es] show ?thesis by simp
qed

text \<open>
  Why the state records \<open>Object.prototype.lastActive\<close>: a request for the identifier
  \<open>__proto__\<close> fails and leaves that property behind, after which the identifier
  \<open>lastActive\<close> finds a number instead of nothing and fails as well.
\<close>

lemma prototype_lastActive_example:
  "handleTurn (says ''Hi'') 5 \<lparr>prompt = Some ''Hello'', sessionId = Some ''__proto__'', req_file = None\<rparr> init
     = (Status500 (TypeError ''push''), init\<lparr>prototype_lastActive := Some 5\<rparr>)"
  "fst (handleTurn (says ''Hi'') 6 \<lparr>prompt = Some ''Hello'', sessionId = Some ''lastActive'', req_file = None\<rparr> init)
     = Status200 (Some ''Hi'')"
  "handleTurn (says ''Hi'') 6 \<lparr>prompt = Some ''Hello'', sessionId = Some ''lastActive'', req_file = None\<rparr>
       (init\<lparr>prototype_lastActive := Some 5\<rparr>)
     = (Status500 (TypeError ''push''), init\<lparr>prototype_lastActive := Some 5\<rparr>)"
  by (simp_all add: eval_defs)

section \<open>Copies sent upstream are never written again\<close>

lemma unreferenced_update:
  assumes "list_all (\<lambda>(k, s). history s \<noteq> p) ss" and "a \<noteq> p"
  shows "list_all (\<lambda>(k, s). history s \<noteq> p) (AList.update k \<lparr>history = a, lastActive = t\<rparr> ss)"
proof -
  have "history s \<noteq> p" if "(k', s) \<in> set (AList.update k \<lparr>history = a, lastActive = t\<rparr> ss)" for k' s
  proof -
    from that set_update_subset
    have "(k', s) = (k, \<lparr>history = a, lastActive = t\<rparr>) \<or> (k', s) \<in> set ss" by fastforce
    with assms show ?thesis by (auto simp: list_all_iff)
  qed
  then show ?thesis by (auto simp: list_all_iff)
qed

lemma unreferenced_history:
  "unreferenced p st \<Longrightarrow> map_of (sessions st) k = Some s \<Longrightarrow> history s \<noteq> p"
  by (auto simp: unreferenced_def list_all_iff dest!: map_of_SomeD)

lemma unreferenced_push:
  assumes "unreferenced p st" and "a \<noteq> p"
  shows "unreferenced p (push a t st)" and "arrays (push a t st) ! p = arrays st ! p"
  using assms by (simp_all add: unreferenced_def push_def)

lemma unreferenced_receive:
  assumes "unreferenced p st" and "receive now req st = (Awaiting h q, st1)"
  shows "unreferenced p st1" and "arrays st1 ! p = arrays st ! p" and "h \<noteq> p"
proof -
  from assms(2) have "unreferenced p st1 \<and> arrays st1 ! p = arrays st ! p \<and> h \<noteq> p"
  proof (cases rule: receive_Awaiting_cases)
    case (existing s)
    from unreferenced_history [OF assms(1) existing(1)] have ne: "history s \<noteq> p" .
    from assms(1) have "list_all (\<lambda>(k, s). history s \<noteq> p) (sessions st)"
      by (simp add: unreferenced_def)
    from unreferenced_update [OF this ne, of "session_key req" now]
    have "list_all (\<lambda>(k, s). history s \<noteq> p)
            (AList.update (session_key req) (s\<lparr>lastActive := now\<rparr>) (sessions st))"
      by (cases s) simp
    with existing assms(1) ne show ?thesis
      by (simp add: unreferenced_def nth_append)
  next
    case created
    from assms(1) have lt: "p < length (arrays st)"
      and "list_all (\<lambda>(k, s). history s \<noteq> p) (sessions st)"
      by (simp_all add: unreferenced_def)
    from unreferenced_update [OF this(2), of "length (arrays st)" "session_key req" now] lt
    have "list_all (\<lambda>(k, s). history s \<noteq> p)
            (AList.update (session_key req) \<lparr>history = length (arrays st), lastActive = now\<rparr> (sessions st))"
      by simp
    with created lt show ?thesis
      by (simp add: unreferenced_def nth_append)
  qed
  then show "unreferenced p st1" and "arrays st1 ! p = arrays st ! p" and "h \<noteq> p"
    by simp_all
qed

lemma unreferenced_handleTurn:
  assumes "unreferenced p st" and "handleTurn post now req st = (x, st2)"
  shows "unreferenced p st2 \<and> arrays st2 ! p = arrays st ! p"
proof -
  obtain w st1 where rc: "receive now req st = (w, st1)" by (cases "receive now req st")
  show ?thesis
  proof (cases w)
    case (Done r)
    with rc assms(2) have "st2 = st1" by (simp add: handleTurn_def)
    moreover from rc Done have "sessions st1 = sessions st" "arrays st1 = arrays st"
      by (auto dest: receive_Done)
    ultimately show ?thesis using assms(1) by (simp add: unreferenced_def)
  next
    case (Awaiting h q)
    with rc assms(2) have rs: "resume h (callGemini post q st1) st1 = (x, st2)"
      by (simp add: handleTurn_def)
    from rc Awaiting have "receive now req st = (Awaiting h q, st1)" by simp
    note r = unreferenced_receive [OF assms(1) this]
    from resume_state [OF rs] r show ?thesis
      by (auto simp: unreferenced_push)
  qed
qed

lemma unreferenced_sweepExpired:
  "unreferenced p st \<Longrightarrow> unreferenced p (sweepExpired now st)"
  using set_fold_expire [of now "map fst (sessions st)" "sessions st"]
  by (auto simp: unreferenced_def sweepExpired_def list_all_iff)

lemma unreferenced_step:
  assumes "unreferenced p st"
  shows "unreferenced p (step e st) \<and> arrays (step e st) ! p = arrays st ! p"
proof (cases e)
  case (Call post now req)
  with unreferenced_handleTurn [OF assms, of post now req
      "fst (handleTurn post now req st)" "snd (handleTurn post now req st)"]
  show ?thesis by simp
next
  case (Sweep now)
  with assms show ?thesis by (simp add: unreferenced_sweepExpired arrays_sweepExpired)
qed

lemma unreferenced_fold_step:
  "unreferenced p st \<Longrightarrow>
   unreferenced p (fold step es st) \<and> arrays (fold step es st) ! p = arrays st ! p"
proof (induction es arbitrary: st)
  case Nil
  then show ?case by simp
next
  case (Cons e es)
  from unreferenced_step [OF Cons.prems, of e]
  have 1: "unreferenced p (step e st)" "arrays (step e st) ! p = arrays st ! p" by simp_all
  from Cons.IH [OF 1(1)] 1(2) show ?case by simp
qed

text \<open>The copy made by a suspended handler is the history of no session.\<close>

lemma receive_copy_unreferenced:
  assumes "wf_server st" and "receive now req st = (Awaiting h p, st1)"
  shows "unreferenced p st1"
proof -
  from assms(1) have old: "list_all (\<lambda>(k, s). history s \<noteq> n) (sessions st)"
    if "length (arrays st) \<le> n" for n
    using that by (auto simp: wf_server_def list_all_iff)
  from assms(2) show ?thesis
  proof (cases rule: receive_Awaiting_cases)
    case (existing s)
    with assms(1) have "history s < length (arrays st)" by (simp add: wf_history)
    then have "history s \<noteq> length (arrays st)" by simp
    from unreferenced_update [OF old [OF order_refl] this, of "session_key req" now]
    have "list_all (\<lambda>(k, s). history s \<noteq> length (arrays st))
            (AList.update (session_key req) (s\<lparr>lastActive := now\<rparr>) (sessions st))"
      by (cases s) simp
    with existing show ?thesis by (simp add: unreferenced_def)
  next
    case created
    have "length (arrays st) \<le> Suc (length (arrays st))" by simp
    from unreferenced_update [OF old [OF this], of "length (arrays st)" "session_key req" now]
    have "list_all (\<lambda>(k, s). history s \<noteq> Suc (length (arrays st)))
            (AList.update (session_key req) \<lparr>history = length (arrays st), lastActive = now\<rparr> (sessions st))"
      by simp
    with created show ?thesis by (simp add: unreferenced_def)
  qed
qed

section \<open>Sessions do not disturb each other\<close>

lemma addressed_to_session_key: "addressed_to k req \<longleftrightarrow> session_key req = k"
  by (auto simp: addressed_to_def session_key_def split: option.splits)

lemma histories_update_existing:
  "map_of al k = Some s \<Longrightarrow> history v = history s \<Longrightarrow>
   map (history \<circ> snd) (AList.update k v al) = map (history \<circ> snd) al"
  by (induction al) (auto split: if_splits)

lemma update_fresh: "map_of al k = None \<Longrightarrow> AList.update k v al = al @ [(k, v)]"
  by (induction al) (auto split: if_splits)

lemma separate_neq:
  assumes "separate st" and "map_of (sessions st) k = Some s" and "map_of (sessions st) k' = Some s'"
    and "k \<noteq> k'"
  shows "history s \<noteq> history s'"
proof -
  from assms(2,3) have m: "(k, s) \<in> set (sessions st)" "(k', s') \<in> set (sessions st)"
    by (auto dest: map_of_SomeD)
  from assms(1) have "inj_on (history \<circ> snd) (set (sessions st))"
    by (simp add: separate_def distinct_map)
  from inj_onD [OF this _ m] assms(4) show ?thesis by auto
qed

lemma separate_receive:
  assumes "wf_server st" and "separate st" and "receive now req st = (Awaiting h p, st1)"
  shows "separate st1"
  using assms(3)
proof (cases rule: receive_Awaiting_cases)
  case (existing s)
  from histories_update_existing [OF existing(1), of "s\<lparr>lastActive := now\<rparr>"] assms(2) existing(4)
  show ?thesis by (simp add: separate_def)
next
  case created
  from assms(1) have "history s < length (arrays st)" if "(k', s) \<in> set (sessions st)" for k' s
    using that by (auto simp: wf_server_def list_all_iff)
  then have "length (arrays st) \<notin> (history \<circ> snd) ` set (sessions st)" by fastforce
  with created assms(2) show ?thesis
    by (simp add: separate_def update_fresh)
qed

lemma separate_handleTurn:
  assumes "wf_server st" and "separate st" and "handleTurn post now req st = (x, st2)"
  shows "separate st2"
proof -
  obtain w st1 where rc: "receive now req st = (w, st1)" by (cases "receive now req st")
  show ?thesis
  proof (cases w)
    case (Done r)
    with rc assms(3) have "st2 = st1" by (simp add: handleTurn_def)
    moreover from rc Done have "sessions st1 = sessions st" by (auto dest: receive_Done)
    ultimately show ?thesis using assms(2) by (simp add: separate_def)
  next
    case (Awaiting h p)
    with rc assms(3) have rs: "resume h (callGemini post p st1) st1 = (x, st2)"
      by (simp add: handleTurn_def)
    from rc Awaiting have "receive now req st = (Awaiting h p, st1)" by simp
    from separate_receive [OF assms(1,2) this] resume_state [OF rs] show ?thesis
      by (auto simp: separate_def sessions_push)
  qed
qed

lemma histories_expire:
  "distinct (map (history \<circ> snd) ss) \<Longrightarrow> distinct (map (history \<circ> snd) (expire now k ss))"
  by (simp add: expire_def AList.delete_eq distinct_map_filter split: option.splits)

lemma histories_fold_expire:
  "distinct (map (history \<circ> snd) ss) \<Longrightarrow>
   distinct (map (history \<circ> snd) (fold (expire now) ks ss))"
  by (induction ks arbitrary: ss) (simp_all add: histories_expire)

lemma separate_sweepExpired: "separate st \<Longrightarrow> separate (sweepExpired now st)"
  by (simp add: separate_def sweepExpired_def histories_fold_expire)

text \<open>A request for another identifier leaves a session and its history as they were.\<close>

lemma handleTurn_other_session:
  assumes "wf_server st" and "separate st" and "handleTurn post now req st = (x, st2)"
    and "session_key req \<noteq> k"
  shows "map_of (sessions st2) k = map_of (sessions st) k"
    and "stored_history k st2 = stored_history k st"
proof -
  obtain w st1 where rc: "receive now req st = (w, st1)" by (cases "receive now req st")
  have "map_of (sessions st2) k = map_of (sessions st) k \<and> stored_history k st2 = stored_history k st"
  proof (cases w)
    case (Done r)
    with rc assms(3) have "st2 = st1" by (simp add: handleTurn_def)
    moreover from rc Done have "sessions st1 = sessions st" "arrays st1 = arrays st"
      by (auto dest: receive_Done)
    ultimately show ?thesis by (simp add: stored_history_def split: option.splits)
  next
    case (Awaiting h p)
    with rc assms(3) have rs: "resume h (callGemini post p st1) st1 = (x, st2)"
      by (simp add: handleTurn_def)
    from rc Awaiting have r: "receive now req st = (Awaiting h p, st1)" by simp
    note facts = receive_Awaiting [OF assms(1) r]
    from facts(8) [of k] assms(4) have s1: "map_of (sessions st1) k = map_of (sessions st) k"
      by simp
    have a1: "arrays st1 ! history s = arrays st ! history s \<and> history s \<noteq> h
              \<and> history s < length (arrays st1)"
      if "map_of (sessions st) k = Some s" for s
      using r
    proof (cases rule: receive_Awaiting_cases)
      case (existing s')
      from separate_neq [OF assms(2) that existing(1)] assms(4)
      have "history s \<noteq> history s'" by simp
      moreover from assms(1) that have "history s < length (arrays st)" by (rule wf_history)
      ultimately show ?thesis using existing by (simp add: nth_append)
    next
      case created
      from assms(1) that have "history s < length (arrays st)" by (rule wf_history)
      with created show ?thesis by (simp add: nth_append)
    qed
    from resume_state [OF rs] have s2: "sessions st2 = sessions st1"
      by (auto simp: sessions_push)
    have "stored_history k st2 = stored_history k st"
    proof (cases "map_of (sessions st) k")
      case None
      with s1 s2 show ?thesis by (simp add: stored_history_def)
    next
      case (Some s)
      from a1 [OF Some] resume_state [OF rs]
      have "arrays st2 ! history s = arrays st ! history s"
        by (auto simp: push_def)
      with Some s1 s2 show ?thesis by (simp add: stored_history_def)
    qed
    with s1 s2 show ?thesis by simp
  qed
  then show "map_of (sessions st2) k = map_of (sessions st) k"
    and "stored_history k st2 = stored_history k st" by simp_all
qed

text \<open>A sweep that does not remove a session leaves it and its history as they were.\<close>

lemma sweepExpired_kept:
  assumes "case map_of (sessions st) k of None \<Rightarrow> True
           | Some s \<Rightarrow> \<not> lastActive s < now - SESSION_EXPIRY"
  shows "map_of (sessions (sweepExpired now st)) k = map_of (sessions st) k"
    and "stored_history k (sweepExpired now st) = stored_history k st"
proof -
  from assms show 1: "map_of (sessions (sweepExpired now st)) k = map_of (sessions st) k"
    by (auto simp: sweepExpired_def map_of_fold_expire split: option.splits)
  then show "stored_history k (sweepExpired now st) = stored_history k st"
    by (simp add: stored_history_def arrays_sweepExpired split: option.splits)
qed

lemma conversation_history:
  assumes "wf_server st" and "separate st" and "undisturbed k es st"
  shows "\<exists>as. length as = length (calls_for k es) \<and> (\<forall>a \<in> set as. role a = Assistant) \<and>
           stored_history k (fold step es st) =
             stored_history k st @ concat (map2 (\<lambda>r a. [newContent r, a]) (calls_for k es) as)"
  using assms
proof (induction es arbitrary: st)
  case Nil
  then show ?case by simp
next
  case (Cons e es)
  show ?case
  proof (cases e)
    case (Sweep now)
    with Cons.prems(3) have
      keep: "case map_of (sessions st) k of None \<Rightarrow> True
             | Some s \<Rightarrow> \<not> lastActive s < now - SESSION_EXPIRY"
      and rest: "undisturbed k es (sweepExpired now st)" by simp_all
    from Cons.IH [OF wf_sweepExpired [OF Cons.prems(1)] separate_sweepExpired [OF Cons.prems(2)] rest]
      sweepExpired_kept(2) [OF keep] Sweep
    show ?thesis by simp
  next
    case (Call post now req)
    obtain x st1 where h: "handleTurn post now req st = (x, st1)"
      by (cases "handleTurn post now req st")
    from Cons.prems(3) Call h have rest: "undisturbed k es st1"
      and good: "addressed_to k req \<longrightarrow> ok x" by simp_all
    note w1 = wf_handleTurn(1) [OF Cons.prems(1) h]
    note p1 = separate_handleTurn [OF Cons.prems(1,2) h]
    from Cons.IH [OF w1 p1 rest] obtain as where as:
      "length as = length (calls_for k es)" "\<forall>a \<in> set as. role a = Assistant"
      "stored_history k (fold step es st1) =
         stored_history k st1 @ concat (map2 (\<lambda>r a. [newContent r, a]) (calls_for k es) as)"
      by blast
    show ?thesis
    proof (cases "addressed_to k req")
      case True
      with good have "ok x" by simp
      from handleTurn_ok_history(3) [OF Cons.prems(1) h this] True
      obtain a where a: "role a = Assistant"
        "stored_history k st1 = stored_history k st @ [newContent req, a]"
        by (auto simp: addressed_to_session_key)
      with as Call h True show ?thesis
        by (intro exI [of _ "a # as"]) simp
    next
      case False
      then have "session_key req \<noteq> k" by (simp add: addressed_to_session_key)
      from handleTurn_other_session(2) [OF Cons.prems(1,2) h this] as Call h False
      show ?thesis by (intro exI [of _ as]) simp
    qed
  qed
qed

lemma separate_step: "wf_server st \<Longrightarrow> separate st \<Longrightarrow> separate (step e st)"
proof (cases e)
  case (Call post now req)
  assume "wf_server st" "separate st"
  with Call separate_handleTurn [of st post now req
      "fst (handleTurn post now req st)" "snd (handleTurn post now req st)"]
  show ?thesis by simp
next
  case (Sweep now)
  assume "separate st"
  with Sweep show ?thesis by (simp add: separate_sweepExpired)
qed

lemma separate_fold_step:
  "wf_server st \<Longrightarrow> separate st \<Longrightarrow> separate (fold step es st)"
proof (induction es arbitrary: st)
  case Nil
  then show ?case by simp
next
  case (Cons e es)
  from wf_step [OF Cons.prems(1), of e] have "wf_server (step e st)" by simp
  from Cons.IH [OF this separate_step [OF Cons.prems]] show ?case by simp
qed

lemma separate_reachable: "separate (fold step es init)"
proof -
  have "wf_server init" "separate init" by (simp_all add: init_def wf_server_def separate_def)
  then show ?thesis by (rule separate_fold_step)
qed

text \<open>
  C3, as the code has it. Let every request and every sweep be handled to completion
  before the next one starts. Take a session identifier with no session in the store,
  and let N requests for it be served, each answered with status 200, with any
  requests for other identifiers and any sweeps in between, as long as no sweep
  removes the session. Afterwards the session's history has exactly 2N turns: for each
  of the N requests in order, the user turn built from it followed by one assistant
  turn.
\<close>

theorem session_history_two_turns_per_call:
  assumes "wf_server st" and "separate st"
    and "map_of (sessions st) k = None"
    and "undisturbed k es st"
  shows "length (stored_history k (fold step es st)) = 2 * length (calls_for k es) \<and>
         (\<exists>as. length as = length (calls_for k es) \<and> (\<forall>a \<in> set as. role a = Assistant) \<and>
            (\<forall>r \<in> set (calls_for k es). role (newContent r) = User) \<and>
            stored_history k (fold step es st) =
              concat (map2 (\<lambda>r a. [newContent r, a]) (calls_for k es) as))"
proof -
  from conversation_history [OF assms(1,2,4)] assms(3)
  obtain as where as: "length as = length (calls_for k es)" "\<forall>a \<in> set as. role a = Assistant"
    "stored_history k (fold step es st) =
       concat (map2 (\<lambda>r a. [newContent r, a]) (calls_for k es) as)"
    by (auto simp: stored_history_def)
  from as have "length (stored_history k (fold step es st)) = 2 * length (calls_for k es)"
    by (simp add: length_exchanges)
  with as show ?thesis by (auto simp: newContent_def)
qed

theorem session_history_two_turns_per_call_witness:
  "wf_server init \<and> separate init \<and> map_of (sessions init) ''a'' = None \<and>
   undisturbed ''a''
     [Call (says ''Hi'') 1 (ask_as ''a'' ''Hello''),
      Call (says ''Yes'') 2 (ask_as ''b'' ''Anyone?''),
      Sweep 3,
      Call (\<lambda>_. Rejected) 4 (ask_as ''b'' ''Still there?''),
      Call (says ''Fine'') 5 (ask_as ''a'' ''How are you?'')] init \<and>
   length (stored_history ''a'' (fold step
     [Call (says ''Hi'') 1 (ask_as ''a'' ''Hello''),
      Call (says ''Yes'') 2 (ask_as ''b'' ''Anyone?''),
      Sweep 3,
      Call (\<lambda>_. Rejected) 4 (ask_as ''b'' ''Still there?''),
      Call (says ''Fine'') 5 (ask_as ''a'' ''How are you?'')] init)) = 4 \<and>
   stored_history ''a'' (fold step
     [Call (says ''Hi'') 1 (ask_as ''a'' ''Hello''),
      Call (says ''Yes'') 2 (ask_as ''b'' ''Anyone?''),
      Sweep 3,
      Call (\<lambda>_. Rejected) 4 (ask_as ''b'' ''Still there?''),
      Call (says ''Fine'') 5 (ask_as ''a'' ''How are you?'')] init)
     = [\<lparr>role = User, parts = Some [Text ''Hello'']\<rparr>,
        \<lparr>role = Assistant, parts = Some [Text ''Hi'']\<rparr>,
        \<lparr>role = User, parts = Some [Text ''How are you?'']\<rparr>,
        \<lparr>role = Assistant, parts = Some [Text ''Fine'']\<rparr>]"
proof -
  let ?es = "[Call (says ''Hi'') 1 (ask_as ''a'' ''Hello''),
      Call (says ''Yes'') 2 (ask_as ''b'' ''Anyone?''),
      Sweep 3,
      Call (\<lambda>_. Rejected) 4 (ask_as ''b'' ''Still there?''),
      Call (says ''Fine'') 5 (ask_as ''a'' ''How are you?'')]"
  have w: "wf_server init" by (simp add: init_def wf_server_def)
  have s: "separate init" by (simp add: init_def separate_def)
  have n: "map_of (sessions init) ''a'' = None" by (simp add: init_def)
  have u: "undisturbed ''a'' ?es init" by (simp add: run_defs)
  have c: "calls_for ''a'' ?es = [ask_as ''a'' ''Hello'', ask_as ''a'' ''How are you?'']"
    by (simp add: addressed_to_def ask_as_def)
  from session_history_two_turns_per_call [OF w s n u]
  have "length (stored_history ''a'' (fold step ?es init)) = 2 * length (calls_for ''a'' ?es)"
    by (rule conjunct1)
  with c have l: "length (stored_history ''a'' (fold step ?es init)) = 4" by simp
  have "stored_history ''a'' (fold step ?es init)
     = [\<lparr>role = User, parts = Some [Text ''Hello'']\<rparr>,
        \<lparr>role = Assistant, parts = Some [Text ''Hi'']\<rparr>,
        \<lparr>role = User, parts = Some [Text ''How are you?'']\<rparr>,
        \<lparr>role = Assistant, parts = Some [Text ''Fine'']\<rparr>]"
    by (simp add: run_defs stored_history_def)
  with l w s n u show ?thesis by blast
qed

text \<open>
  C3, as the specification states it, fails in two ways. Two successful requests for
  \<open>default\<close> with a sweep between them that finds the session idle for longer than
  the TTL leave a history of 2 turns, not 4. Two successful requests for \<open>default\<close>
  whose handlers interleave at the \<open>await\<close> leave the turns in the order user, user,
  assistant, assistant.
\<close>

theorem eviction_or_interleaving_counterexample:
  "length (calls_for ''default''
     [Call (says ''Hi'') 0 (ask ''Hello''), Sweep 1800001,
      Call (says ''Fine'') 1800002 (ask ''How are you?'')]) = 2 \<and>
   ok (fst (handleTurn (says ''Hi'') 0 (ask ''Hello'') init)) \<and>
   ok (fst (handleTurn (says ''Fine'') 1800002 (ask ''How are you?'')
         (sweepExpired 1800001 (snd (handleTurn (says ''Hi'') 0 (ask ''Hello'') init))))) \<and>
   stored_history ''default'' (fold step
     [Call (says ''Hi'') 0 (ask ''Hello''), Sweep 1800001,
      Call (says ''Fine'') 1800002 (ask ''How are you?'')] init)
     = [\<lparr>role = User, parts = Some [Text ''How are you?'']\<rparr>,
        \<lparr>role = Assistant, parts = Some [Text ''Fine'']\<rparr>] \<and>
   fst (receive 1 (ask ''Hello'') init) = Awaiting 0 1 \<and>
   fst (receive 2 (ask ''How are you?'') (snd (receive 1 (ask ''Hello'') init))) = Awaiting 0 2 \<and>
   resume 0 (callGemini (says ''Fine'') 2
       (snd (resume 0 (callGemini (says ''Hi'') 1
          (snd (receive 2 (ask ''How are you?'') (snd (receive 1 (ask ''Hello'') init)))))
          (snd (receive 2 (ask ''How are you?'') (snd (receive 1 (ask ''Hello'') init)))))))
       (snd (resume 0 (callGemini (says ''Hi'') 1
          (snd (receive 2 (ask ''How are you?'') (snd (receive 1 (ask ''Hello'') init)))))
          (snd (receive 2 (ask ''How are you?'') (snd (receive 1 (ask ''Hello'') init))))))
     = (Status200 (Some ''Fine''),
        \<lparr>sessions = [(''default'', \<lparr>history = 0, lastActive = 2\<rparr>)],
         arrays = [[\<lparr>role = User, parts = Some [Text ''Hello'']\<rparr>,
                    \<lparr>role = User, parts = Some [Text ''How are you?'']\<rparr>,
                    \<lparr>role = Assistant, parts = Some [Text ''Hi'']\<rparr>,
                    \<lparr>role = Assistant, parts = Some [Text ''Fine'']\<rparr>],
                   [\<lparr>role = User, parts = Some [Text ''Hello'']\<rparr>],
                   [\<lparr>role = User, parts = Some [Text ''Hello'']\<rparr>,
                    \<lparr>role = User, parts = Some [Text ''How are you?'']\<rparr>]],
         prototype_lastActive = None\<rparr>)"
  by (simp add: run_defs stored_history_def)

section \<open>What is sent upstream and what comes back\<close>

lemma resume_keeps_copy:
  assumes "resume h r st1 = (x, st2)" and "h < length (arrays st1)" and "p \<noteq> h"
  shows "arrays st2 ! p = arrays st1 ! p"
  using resume_state [OF assms(1)] assms(2,3) by (auto simp: nth_arrays_push)

text \<open>
  C6. When the handler reaches the upstream call, what it hands to the upstream is the
  whole stored history of the session, ending with the user turn just appended: the
  answer of the handler is decided by what the upstream says to exactly that list of
  turns. The array sent is not the stored history array: it still holds what was sent
  after the handler has pushed the assistant turn onto the history, and after any
  requests and sweeps that follow. If the session was created by one earlier successful
  request, what is sent is exactly the three turns user1, assistant1, user2.
\<close>

theorem full_history_replay:
  assumes "wf_server st"
    and "receive now req st = (Awaiting h p, st1)"
    and "handleTurn post now req st = (x, st2)"
  shows "arrays st1 ! p = stored_history (session_key req) st @ [newContent req]
       \<and> arrays st1 ! p = stored_history (session_key req) st1
       \<and> (post (stored_history (session_key req) st @ [newContent req]) = Rejected
            \<longleftrightarrow> x = Status500 (Error ''Failed to get AI response''))
       \<and> (\<forall>d. post (stored_history (session_key req) st @ [newContent req]) = Resolved d
              \<longrightarrow> (x, st2) = resume h (Inr (case first_content d of Some c \<Rightarrow> c | None \<Rightarrow> fallback)) st1)
       \<and> (\<forall>post'. post' (stored_history (session_key req) st @ [newContent req])
                    = post (stored_history (session_key req) st @ [newContent req])
              \<longrightarrow> handleTurn post' now req st = (x, st2))
       \<and> p \<noteq> h
       \<and> arrays st2 ! p = arrays st1 ! p
       \<and> (ok x \<longrightarrow> (\<exists>a. arrays st2 ! h = arrays st2 ! p @ [a]))
       \<and> (\<forall>es. arrays (fold step es st2) ! p = arrays st1 ! p)
       \<and> (\<forall>post0 now0 req0 st0 t0.
             wf_server st0 \<and> map_of (sessions st0) (session_key req) = None \<and>
             session_key req0 = session_key req \<and>
             handleTurn post0 now0 req0 st0 = (Status200 t0, st)
             \<longrightarrow> (\<exists>a. role a = Assistant \<and>
                    arrays st1 ! p = [newContent req0, a, newContent req] \<and>
                    (post [newContent req0, a, newContent req] = Rejected
                       \<longleftrightarrow> x = Status500 (Error ''Failed to get AI response''))))"
proof -
  let ?P = "stored_history (session_key req) st @ [newContent req]"
  note facts = receive_Awaiting [OF assms(1,2)]
  have rs: "resume h (callGemini post p st1) st1 = (x, st2)"
    using assms(2,3) by (simp add: handleTurn_def)
  have 3: "arrays st1 ! p = ?P"
    using facts(3,4) by simp
  have 4: "arrays st1 ! p = stored_history (session_key req) st1"
    using facts(2,4) by (simp add: stored_history_def)
  have rej: "x = Status500 (Error ''Failed to get AI response'')" if "post ?P = Rejected"
    using rs 3 that by (simp add: callGemini_def resume_def)
  have res: "(x, st2) = resume h (Inr (case first_content d of Some c \<Rightarrow> c | None \<Rightarrow> fallback)) st1"
    if "post ?P = Resolved d" for d
    using rs 3 that by (simp add: callGemini_def)
  have "post ?P = Rejected" if x: "x = Status500 (Error ''Failed to get AI response'')"
  proof (cases "post ?P")
    case Rejected
    then show ?thesis .
  next
    case (Resolved d)
    from res [OF this] x show ?thesis
      by (auto simp: resume_def Let_def split: option.splits list.splits)
  qed
  with rej have 10: "post ?P = Rejected \<longleftrightarrow> x = Status500 (Error ''Failed to get AI response'')"
    by blast
  have 11: "handleTurn post' now req st = (x, st2)" if "post' ?P = post ?P" for post'
  proof -
    from that 3 have "callGemini post' p st1 = callGemini post p st1"
      by (simp add: callGemini_def)
    with rs assms(2) show ?thesis by (simp add: handleTurn_def)
  qed
  have 5: "p \<noteq> h" using facts(5) by simp
  have 6: "arrays st2 ! p = arrays st1 ! p"
    using rs facts(5,6) 5 by (intro resume_keeps_copy [of h _ st1 x st2]) simp_all
  have h: "h < length (arrays st1)" using facts(5,6) by simp
  have 8: "\<exists>a. arrays st2 ! h = arrays st2 ! p @ [a]" if "ok x"
  proof -
    from that obtain t where "x = Status200 t" by (cases x) (simp_all add: ok_def)
    with rs obtain f ps where
      "st2 = push h \<lparr>role = Assistant, parts = Some (f # ps)\<rparr> st1"
      by (auto elim: resume_ok)
    with h 5 facts(4) show ?thesis by (simp add: nth_arrays_push)
  qed
  have 9: "arrays (fold step es st2) ! p = arrays st1 ! p" for es
  proof -
    from receive_copy_unreferenced [OF assms(1,2)] have "unreferenced p st1" .
    with resume_state [OF rs] 5 have "unreferenced p st2"
      by (auto simp: unreferenced_push)
    from unreferenced_fold_step [OF this, of es] 6 show ?thesis by simp
  qed
  have 7: "\<exists>a. role a = Assistant \<and> arrays st1 ! p = [newContent req0, a, newContent req] \<and>
             (post [newContent req0, a, newContent req] = Rejected
                \<longleftrightarrow> x = Status500 (Error ''Failed to get AI response''))"
    if "wf_server st0" "map_of (sessions st0) (session_key req) = None"
      "session_key req0 = session_key req" "handleTurn post0 now0 req0 st0 = (Status200 t0, st)"
    for post0 now0 req0 st0 t0
  proof -
    from handleTurn_ok_history(3) [OF that(1,4)] that(2,3)
    obtain a where "role a = Assistant" "stored_history (session_key req) st = [newContent req0, a]"
      by (auto simp: ok_def stored_history_def)
    with 3 10 show ?thesis by auto
  qed
  from 3 4 10 res 11 5 6 7 8 9 show ?thesis by blast
qed


theorem full_history_replay_witness:
  "wf_server (snd (handleTurn (says ''Hi'') 1 (ask ''Hello'') init)) \<and>
   fst (receive 2 (ask ''How are you?'') (snd (handleTurn (says ''Hi'') 1 (ask ''Hello'') init)))
     = Awaiting 0 2 \<and>
   arrays (snd (receive 2 (ask ''How are you?'') (snd (handleTurn (says ''Hi'') 1 (ask ''Hello'') init)))) ! 2
     = [\<lparr>role = User, parts = Some [Text ''Hello'']\<rparr>,
        \<lparr>role = Assistant, parts = Some [Text ''Hi'']\<rparr>,
        \<lparr>role = User, parts = Some [Text ''How are you?'']\<rparr>] \<and>
   fst (handleTurn
          (replies_to [\<lparr>role = User, parts = Some [Text ''Hello'']\<rparr>,
                       \<lparr>role = Assistant, parts = Some [Text ''Hi'']\<rparr>,
                       \<lparr>role = User, parts = Some [Text ''How are you?'']\<rparr>] ''Fine'')
          2 (ask ''How are you?'') (snd (handleTurn (says ''Hi'') 1 (ask ''Hello'') init)))
     \<noteq> Status500 (Error ''Failed to get AI response'') \<and>
   fst (handleTurn
          (replies_to [\<lparr>role = User, parts = Some [Text ''How are you?'']\<rparr>] ''Fine'')
          2 (ask ''How are you?'') (snd (handleTurn (says ''Hi'') 1 (ask ''Hello'') init)))
     = Status500 (Error ''Failed to get AI response'') \<and>
   arrays (snd (handleTurn (says ''Fine'') 2 (ask ''How are you?'')
                  (snd (handleTurn (says ''Hi'') 1 (ask ''Hello'') init)))) ! 2
     = [\<lparr>role = User, parts = Some [Text ''Hello'']\<rparr>,
        \<lparr>role = Assistant, parts = Some [Text ''Hi'']\<rparr>,
        \<lparr>role = User, parts = Some [Text ''How are you?'']\<rparr>]"
proof -
  let ?st = "snd (handleTurn (says ''Hi'') 1 (ask ''Hello'') init)"
  let ?st1 = "snd (receive 2 (ask ''How are you?'') ?st)"
  let ?full = "[\<lparr>role = User, parts = Some [Text ''Hello'']\<rparr>,
                \<lparr>role = Assistant, parts = Some [Text ''Hi'']\<rparr>,
                \<lparr>role = User, parts = Some [Text ''How are you?'']\<rparr>]"
  let ?last = "[\<lparr>role = User, parts = Some [Text ''How are you?'']\<rparr>]"
  have w: "wf_server ?st" by (simp add: eval_defs wf_server_def)
  have r1: "fst (receive 2 (ask ''How are you?'') ?st) = Awaiting 0 2"
    by (simp add: eval_defs)
  then have r: "receive 2 (ask ''How are you?'') ?st = (Awaiting 0 2, ?st1)"
    by (metis prod.collapse)
  have P: "stored_history (session_key (ask ''How are you?'')) ?st
             @ [newContent (ask ''How are you?'')] = ?full"
    by (simp add: eval_defs stored_history_def)
  have out: "handleTurn u 2 (ask ''How are you?'') ?st
               = (fst (handleTurn u 2 (ask ''How are you?'') ?st),
                  snd (handleTurn u 2 (ask ''How are you?'') ?st))" for u
    by simp
  note t = full_history_replay [OF w r out, unfolded P]
  from t [of "says ''Fine''"]
  have a: "arrays ?st1 ! 2 = ?full"
    and c: "arrays (snd (handleTurn (says ''Fine'') 2 (ask ''How are you?'') ?st)) ! 2
              = arrays ?st1 ! 2"
    by blast+
  from t [of "replies_to ?full ''Fine''"]
  have "replies_to ?full ''Fine'' ?full = Rejected \<longleftrightarrow>
        fst (handleTurn (replies_to ?full ''Fine'') 2 (ask ''How are you?'') ?st)
          = Status500 (Error ''Failed to get AI response'')"
    by blast
  then have g: "fst (handleTurn (replies_to ?full ''Fine'') 2 (ask ''How are you?'') ?st)
          \<noteq> Status500 (Error ''Failed to get AI response'')"
    by (simp add: replies_to_def)
  from t [of "replies_to ?last ''Fine''"]
  have "replies_to ?last ''Fine'' ?full = Rejected \<longleftrightarrow>
        fst (handleTurn (replies_to ?last ''Fine'') 2 (ask ''How are you?'') ?st)
          = Status500 (Error ''Failed to get AI response'')"
    by blast
  then have b: "fst (handleTurn (replies_to ?last ''Fine'') 2 (ask ''How are you?'') ?st)
          = Status500 (Error ''Failed to get AI response'')"
    by (simp add: replies_to_def)
  from a c have "arrays (snd (handleTurn (says ''Fine'') 2 (ask ''How are you?'') ?st)) ! 2 = ?full"
    by simp
  with w r1 a g b show ?thesis by blast
qed

text \<open>
  C8, as the code has it. A request answered with status 200 has appended, behind its
  user turn, an assistant turn holding the parts of the first content block of the
  answer (of the fallback block when there is none), and has returned the \<open>text\<close> field
  of the first fragment of that block: the first text fragment when the block starts
  with text, and nothing when it starts with a fragment of another kind.
\<close>

theorem reply_is_text_of_first_fragment:
  assumes "wf_server st"
    and "handleTurn post now req st = (x, st2)"
    and "ok x"
  shows "\<exists>d f ps.
           post (stored_history (session_key req) st @ [newContent req]) = Resolved d \<and>
           (case first_content d of Some c \<Rightarrow> c | None \<Rightarrow> fallback) = Content (Some (f # ps)) \<and>
           stored_history (session_key req) st2 =
             stored_history (session_key req) st
               @ [newContent req, \<lparr>role = Assistant, parts = Some (f # ps)\<rparr>] \<and>
           x = Status200 (text_of f) \<and>
           (case f of Text s \<Rightarrow> x = Status200 (first_text (f # ps))
                    | InlineData m b \<Rightarrow> x = Status200 None)"
proof -
  from assms(3) obtain t where x: "x = Status200 t" by (cases x) (simp_all add: ok_def)
  from assms(2) [unfolded x] obtain h p st1 f ps where
    rc: "receive now req st = (Awaiting h p, st1)" and
    cg: "callGemini post p st1 = Inr (Content (Some (f # ps)))" and
    t: "t = text_of f" and
    st2: "st2 = push h \<lparr>role = Assistant, parts = Some (f # ps)\<rparr> st1"
    by (rule handleTurn_ok)
  note facts = receive_Awaiting [OF assms(1) rc]
  from facts(3,4) have pl: "arrays st1 ! p = stored_history (session_key req) st @ [newContent req]"
    by simp
  from cg pl obtain d where d: "post (stored_history (session_key req) st @ [newContent req]) = Resolved d"
    "(case first_content d of Some c \<Rightarrow> c | None \<Rightarrow> fallback) = Content (Some (f # ps))"
    by (auto simp: callGemini_def split: upstream_result.splits)
  from facts(5,6) have "h < length (arrays st1)" by simp
  with facts(2,3) st2
  have hist: "stored_history (session_key req) st2 =
          stored_history (session_key req) st @ [newContent req, \<lparr>role = Assistant, parts = Some (f # ps)\<rparr>]"
    by (simp add: stored_history_def sessions_push nth_arrays_push)
  have "case f of Text s \<Rightarrow> x = Status200 (first_text (f # ps)) | InlineData m b \<Rightarrow> x = Status200 None"
    using x t by (cases f) (simp_all add: text_of_def)
  with d hist x t show ?thesis by blast
qed

theorem reply_is_text_of_first_fragment_witness:
  "wf_server init \<and> ok (fst (handleTurn picture_first 1 (ask ''Hello'') init)) \<and>
   stored_history ''default'' (snd (handleTurn picture_first 1 (ask ''Hello'') init))
     = [\<lparr>role = User, parts = Some [Text ''Hello'']\<rparr>,
        \<lparr>role = Assistant, parts = Some [InlineData ''image/png'' ''iVBORw0KGgo='', Text ''A cat'']\<rparr>] \<and>
   fst (handleTurn picture_first 1 (ask ''Hello'') init) = Status200 None"
proof -
  let ?out = "handleTurn picture_first 1 (ask ''Hello'') init"
  have w: "wf_server init" by (simp add: init_def wf_server_def)
  have x: "fst ?out = Status200 None" by (simp add: eval_defs picture_first_def)
  then have o: "ok (fst ?out)" by (simp add: ok_def)
  have e: "?out = (fst ?out, snd ?out)" by simp
  from reply_is_text_of_first_fragment [OF w e o] obtain d f ps where
    "picture_first (stored_history (session_key (ask ''Hello'')) init @ [newContent (ask ''Hello'')]) = Resolved d"
    "(case first_content d of Some c \<Rightarrow> c | None \<Rightarrow> fallback) = Content (Some (f # ps))"
    "stored_history (session_key (ask ''Hello'')) (snd ?out) =
       stored_history (session_key (ask ''Hello'')) init
         @ [newContent (ask ''Hello''), \<lparr>role = Assistant, parts = Some (f # ps)\<rparr>]"
    by blast
  then have "stored_history ''default'' (snd ?out)
     = [\<lparr>role = User, parts = Some [Text ''Hello'']\<rparr>,
        \<lparr>role = Assistant, parts = Some [InlineData ''image/png'' ''iVBORw0KGgo='', Text ''A cat'']\<rparr>]"
    by (auto simp: picture_first_def first_content_def first_def session_key_def ask_def
        stored_history_def init_def newContent_def)
  with w x o show ?thesis by simp
qed

text \<open>
  C8, as the specification states it, fails: for a content block that starts with an
  inline-data fragment and continues with the text \<open>A cat\<close>, the request succeeds but
  returns no text, although the block has a first text fragment.
\<close>

theorem first_fragment_not_text_counterexample:
  "fst (handleTurn picture_first 1 (ask ''Hello'') init) = Status200 None \<and>
   first_text [InlineData ''image/png'' ''iVBORw0KGgo='', Text ''A cat''] = Some ''A cat''"
  by (simp add: eval_defs picture_first_def)

lemma fallback_call:
  assumes "receive now req st = (Awaiting h p, st1)"
    and "post (arrays st1 ! p) = Resolved d"
    and "no_candidates d"
  shows "handleTurn post now req st =
           (Status200 (Some ''No response from AI.''), push h fallback_turn st1)"
  using assms
  by (simp add: handleTurn_def callGemini_def resume_def no_candidates_first_content
      fallback_def fallback_turn_def text_of_def)

text \<open>
  C10. When the answer has no candidates, the request succeeds with the fallback text
  and the session's history has grown by exactly two turns: the user turn and an
  assistant turn holding the fallback text. Whatever requests and sweeps follow, a
  later request for this key that still works on the same history array sends a
  payload that starts with the old history, that user turn and the fallback turn.
\<close>

theorem fallback_enters_history:
  assumes "wf_server st"
    and "receive now req st = (Awaiting h p, st1)"
    and "post (arrays st1 ! p) = Resolved d"
    and "no_candidates d"
  shows "\<exists>st2.
           handleTurn post now req st = (Status200 (Some ''No response from AI.''), st2) \<and>
           stored_history (session_key req) st2 =
             stored_history (session_key req) st @ [newContent req, fallback_turn] \<and>
           (\<forall>es now' req' p' st3.
              session_key req' = session_key req \<and>
              receive now' req' (fold step es st2) = (Awaiting h p', st3)
              \<longrightarrow> (\<exists>later. arrays st3 ! p' =
                     stored_history (session_key req) st
                       @ [newContent req, fallback_turn] @ later @ [newContent req']))"
proof -
  let ?k = "session_key req"
  let ?st2 = "push h fallback_turn st1"
  let ?H = "stored_history ?k st @ [newContent req, fallback_turn]"
  note facts = receive_Awaiting [OF assms(1,2)]
  from facts(5,6) have h: "h < length (arrays st1)" by simp
  have call: "handleTurn post now req st = (Status200 (Some ''No response from AI.''), ?st2)"
    using assms(2,3,4) by (rule fallback_call)
  from h facts(3) have at_h: "arrays ?st2 ! h = ?H"
    by (simp add: nth_arrays_push)
  with facts(2) have hist: "stored_history ?k ?st2 = ?H"
    by (simp add: stored_history_def sessions_push)
  have w2: "wf_server ?st2" using facts(1) by (rule wf_push)
  have later: "\<exists>later. arrays st3 ! p' =
      stored_history ?k st @ [newContent req, fallback_turn] @ later @ [newContent req']"
    if key: "session_key req' = ?k"
      and rc: "receive now' req' (fold step es ?st2) = (Awaiting h p', st3)"
    for es now' req' p' st3
  proof -
    let ?st' = "fold step es ?st2"
    from wf_fold_step [OF w2, of es] have w': "wf_server ?st'" and g: "grows ?st2 ?st'"
      by simp_all
    from h have h2: "h < length (arrays ?st2)" by (simp add: length_arrays_push)
    with g have "prefix (arrays ?st2 ! h) (arrays ?st' ! h)" and h': "h < length (arrays ?st')"
      by (simp_all add: grows_def)
    with at_h obtain later where l: "arrays ?st' ! h = ?H @ later"
      by (auto simp: prefix_def)
    note facts' = receive_Awaiting [OF w' rc]
    from rc have "stored_history (session_key req') ?st' = arrays ?st' ! h"
    proof (cases rule: receive_Awaiting_cases)
      case (existing s)
      then show ?thesis by (simp add: stored_history_def)
    next
      case created
      with h' show ?thesis by simp
    qed
    with facts'(3,4) l have "arrays st3 ! p' =
        stored_history ?k st @ [newContent req, fallback_turn] @ later @ [newContent req']"
      by simp
    then show ?thesis by blast
  qed
  from call hist later show ?thesis by blast
qed

theorem fallback_enters_history_witness:
  "wf_server init \<and>
   fst (receive 1 (ask ''Hello'') init) = Awaiting 0 1 \<and>
   no_candidates (Some (Data (Some []))) \<and>
   handleTurn (\<lambda>_. Resolved (Some (Data (Some [])))) 1 (ask ''Hello'') init =
     (Status200 (Some ''No response from AI.''),
      \<lparr>sessions = [(''default'', \<lparr>history = 0, lastActive = 1\<rparr>)],
       arrays = [[\<lparr>role = User, parts = Some [Text ''Hello'']\<rparr>,
                  \<lparr>role = Assistant, parts = Some [Text ''No response from AI.'']\<rparr>],
                 [\<lparr>role = User, parts = Some [Text ''Hello'']\<rparr>]],
       prototype_lastActive = None\<rparr>) \<and>
   (\<exists>later. arrays (snd (receive 9 (ask ''Again'')
        (fold step [Sweep 5, Call (says ''Hi'') 6 (ask ''More'')]
           (snd (handleTurn (\<lambda>_. Resolved (Some (Data (Some [])))) 1 (ask ''Hello'') init))))) ! 3
      = [\<lparr>role = User, parts = Some [Text ''Hello'']\<rparr>,
         \<lparr>role = Assistant, parts = Some [Text ''No response from AI.'']\<rparr>] @ later
        @ [\<lparr>role = User, parts = Some [Text ''Again'']\<rparr>])"
proof -
  let ?post = "\<lambda>_ :: turn list. Resolved (Some (Data (Some [])))"
  let ?st1 = "snd (receive 1 (ask ''Hello'') init)"
  let ?st2 = "snd (handleTurn ?post 1 (ask ''Hello'') init)"
  let ?es = "[Sweep 5, Call (says ''Hi'') 6 (ask ''More'')]"
  let ?st3 = "snd (receive 9 (ask ''Again'') (fold step ?es ?st2))"
  have w: "wf_server init" by (simp add: init_def wf_server_def)
  have r1: "fst (receive 1 (ask ''Hello'') init) = Awaiting 0 1" by (simp add: eval_defs)
  then have r: "receive 1 (ask ''Hello'') init = (Awaiting 0 1, ?st1)"
    by (metis prod.collapse)
  have a: "?post (arrays ?st1 ! 1) = Resolved (Some (Data (Some [])))" by simp
  have n: "no_candidates (Some (Data (Some [])))" by (simp add: no_candidates_def)
  have c: "handleTurn ?post 1 (ask ''Hello'') init =
     (Status200 (Some ''No response from AI.''),
      \<lparr>sessions = [(''default'', \<lparr>history = 0, lastActive = 1\<rparr>)],
       arrays = [[\<lparr>role = User, parts = Some [Text ''Hello'']\<rparr>,
                  \<lparr>role = Assistant, parts = Some [Text ''No response from AI.'']\<rparr>],
                 [\<lparr>role = User, parts = Some [Text ''Hello'']\<rparr>]],
       prototype_lastActive = None\<rparr>)"
    by (simp add: eval_defs)
  have l1: "fst (receive 9 (ask ''Again'') (fold step ?es ?st2)) = Awaiting 0 3"
    by (simp add: eval_defs sweepExpired_def expire_def SESSION_EXPIRY_def)
  then have l: "receive 9 (ask ''Again'') (fold step ?es ?st2) = (Awaiting 0 3, ?st3)"
    by (metis prod.collapse)
  have k: "session_key (ask ''Again'') = session_key (ask ''Hello'')"
    by (simp add: session_key_def ask_def)
  from fallback_enters_history [OF w r a n] obtain st2 where
    s: "handleTurn ?post 1 (ask ''Hello'') init = (Status200 (Some ''No response from AI.''), st2)"
    and f: "\<forall>es now' req' p' st3.
              session_key req' = session_key (ask ''Hello'') \<and>
              receive now' req' (fold step es st2) = (Awaiting 0 p', st3)
              \<longrightarrow> (\<exists>later. arrays st3 ! p' =
                     stored_history (session_key (ask ''Hello'')) init
                       @ [newContent (ask ''Hello''), fallback_turn] @ later @ [newContent req'])"
    by blast
  from s have "st2 = ?st2" by simp
  with f k l have "\<exists>later. arrays ?st3 ! 3 =
      stored_history (session_key (ask ''Hello'')) init
        @ [newContent (ask ''Hello''), fallback_turn] @ later @ [newContent (ask ''Again'')]"
    by blast
  then have "\<exists>later. arrays ?st3 ! 3
      = [\<lparr>role = User, parts = Some [Text ''Hello'']\<rparr>,
         \<lparr>role = Assistant, parts = Some [Text ''No response from AI.'']\<rparr>] @ later
        @ [\<lparr>role = User, parts = Some [Text ''Again'']\<rparr>]"
    by (simp add: stored_history_def init_def newContent_def ask_def fallback_turn_def)
  with w r1 n c show ?thesis by blast
qed

end
